theory Spec2Isabelle
  imports Main "HOL-Library.Word" "HOL-Library.Sublist"
begin

unbundle bit_operations_syntax

section \<open>Data model\<close>

text \<open>
  A pixel sample and a payload byte are both unsigned 8-bit values (numpy \<open>uint8\<close>,
  Python \<open>bytes\<close>). A numpy array is its shape together with its row-major contents, which
  is what \<open>flatten()\<close> returns and \<open>reshape(shape)\<close> restores.

  The engine handles bit strings as Python \<open>str\<close> values over the two characters
  \<open>'0'\<close> and \<open>'1'\<close>; they are modelled as lists of booleans, \<open>True\<close> for \<open>'1'\<close>.
\<close>

type_synonym byte = "8 word"
type_synonym bytes = "byte list"
type_synonym bitstr = "bool list"

record ndarray =
  shape :: "nat list"
  flat :: "byte list"

text \<open>\<open>img_array.size\<close>, the number of samples. In a well-formed array it is the product of
  the shape.\<close>

definition np_size :: "ndarray \<Rightarrow> nat" where
  "np_size img_array = length (flat img_array)"

definition wf_ndarray :: "ndarray \<Rightarrow> bool" where
  "wf_ndarray img_array \<longleftrightarrow> length (flat img_array) = prod_list (shape img_array)"

text \<open>The exceptions the engine can meet, each with its message (\<open>str(e)\<close>).\<close>

datatype error =
    ValueError string
  | StructError string
  | ZlibError string
  | ImportError string
  | IndexError string

fun error_str :: "error \<Rightarrow> string" where
  "error_str (ValueError m) = m"
| "error_str (StructError m) = m"
| "error_str (ZlibError m) = m"
| "error_str (ImportError m) = m"
| "error_str (IndexError m) = m"

definition then_e :: "error + 'a \<Rightarrow> ('a \<Rightarrow> error + 'b) \<Rightarrow> error + 'b" where
  "then_e m f = (case m of Inl e \<Rightarrow> Inl e | Inr x \<Rightarrow> f x)"

text \<open>Values of the result dictionaries.\<close>

datatype pyval = PyBool bool | PyInt int | PyStr string

type_synonym pydict = "string \<rightharpoonup> pyval"

subsection \<open>External libraries\<close>

text \<open>
  The engine calls zlib, hashlib, PyCryptodome and numpy's legacy generator. They are not
  part of the repository; the model takes them as a record of functions. Whatever a run reads
  from the clock or the random source is kept apart in a second record, since it changes from
  one call to the next.
  \<^item> \<open>zlib_compress d\<close> is \<open>zlib.compress(d, level=9)\<close>; \<open>zlib_decompress\<close> raises
    \<open>zlib.error\<close> on malformed input.
  \<^item> \<open>sha256 d\<close> is \<open>hashlib.sha256(d).digest()\<close>.
  \<^item> \<open>pbkdf2_hmac_sha256 pw salt iters len\<close> is \<open>hashlib.pbkdf2_hmac('sha256', ...)\<close>.
  \<^item> \<open>crypto_available\<close> is the module flag \<open>CRYPTO_AVAILABLE\<close>.
  \<^item> \<open>gcm_encrypt_and_digest key iv d\<close> is
    \<open>AES.new(key, AES.MODE_GCM, iv).encrypt_and_digest(d)\<close>, a pair (ciphertext, tag);
    \<open>gcm_decrypt_and_verify key iv c tag\<close> is the matching \<open>decrypt_and_verify\<close>, or the
    message of the exception raised while building the cipher or verifying.
  \<^item> \<open>np_permutation seed n\<close> is \<open>np.random.RandomState(seed).permutation(n)\<close>.
\<close>

record lib =
  zlib_compress :: "bytes \<Rightarrow> bytes"
  zlib_decompress :: "bytes \<Rightarrow> error + bytes"
  sha256 :: "bytes \<Rightarrow> bytes"
  pbkdf2_hmac_sha256 :: "bytes \<Rightarrow> bytes \<Rightarrow> nat \<Rightarrow> nat \<Rightarrow> bytes"
  crypto_available :: bool
  gcm_encrypt_and_digest :: "bytes \<Rightarrow> bytes \<Rightarrow> bytes \<Rightarrow> bytes \<times> bytes"
  gcm_decrypt_and_verify :: "bytes \<Rightarrow> bytes \<Rightarrow> bytes \<Rightarrow> bytes \<Rightarrow> string + bytes"
  np_permutation :: "nat \<Rightarrow> nat \<Rightarrow> nat list"

text \<open>\<open>time_now\<close> is \<open>int(time.time())\<close>; \<open>get_random_bytes n\<close> is the \<open>n\<close> bytes drawn from
  the system's random source.\<close>

record run =
  time_now :: int
  get_random_bytes :: "nat \<Rightarrow> bytes"

subsection \<open>Python string and integer primitives\<close>

text \<open>\<open>bin(n)[2:]\<close>: the binary digits of \<open>n\<close>, most significant first, \<open>'0'\<close> for zero.\<close>

fun bin_digits :: "nat \<Rightarrow> bitstr" where
  "bin_digits n = (if n < 2 then [n = 1] else bin_digits (n div 2) @ [odd n])"

declare bin_digits.simps [simp del]

text \<open>\<open>format(n, '0{w}b')\<close>: the binary digits, zero-filled on the left to at least \<open>w\<close>
  characters.\<close>

definition format_bin :: "nat \<Rightarrow> nat \<Rightarrow> bitstr" where
  "format_bin w n = (let ds = bin_digits n in replicate (w - length ds) False @ ds)"

text \<open>\<open>int(s, 2)\<close> on a non-empty digit string.\<close>

definition int2 :: "bitstr \<Rightarrow> nat" where
  "int2 s = foldl (\<lambda>a c. 2 * a + of_bool c) 0 s"

text \<open>\<open>s.ljust(w, '0')\<close>.\<close>

definition ljust :: "bitstr \<Rightarrow> nat \<Rightarrow> bitstr" where
  "ljust s w = s @ replicate (w - length s) False"

text \<open>\<open>s.find(sub)\<close>: the lowest index at which \<open>sub\<close> occurs in \<open>s\<close>, if any. The source
  tests \<open>sub in s\<close> and then takes \<open>s.index(sub)\<close>; both are read off this result.\<close>

fun str_find :: "'a list \<Rightarrow> 'a list \<Rightarrow> nat option" where
  "str_find sub [] = (if sub = [] then Some 0 else None)"
| "str_find sub (c # s) =
     (if prefix sub (c # s) then Some 0 else map_option Suc (str_find sub s))"

text \<open>The slice \<open>s[a:b]\<close> for \<open>0 \<le> a \<le> b\<close>.\<close>

definition py_slice :: "'a list \<Rightarrow> nat \<Rightarrow> nat \<Rightarrow> 'a list" where
  "py_slice s a b = take (b - a) (drop a s)"

text \<open>\<open>password.encode()\<close>: a password is held as its sequence of UTF-8 code units.\<close>

definition encode :: "string \<Rightarrow> bytes" where
  "encode password = map of_char password"

text \<open>\<open>int.from_bytes(bs, 'big')\<close> and \<open>n.to_bytes(k, 'big')\<close>.\<close>

definition int_from_bytes_big :: "bytes \<Rightarrow> nat" where
  "int_from_bytes_big bs = foldl (\<lambda>a b. 256 * a + unat b) 0 bs"

definition int_to_bytes_big :: "nat \<Rightarrow> nat \<Rightarrow> bytes" where
  "int_to_bytes_big k n = map (\<lambda>i. of_nat (n div 256 ^ (k - 1 - i) mod 256)) [0..<k]"

text \<open>\<open>struct.pack\<close> and \<open>struct.unpack\<close> for one big-endian unsigned field of \<open>k\<close> bytes
  (\<open>'>Q'\<close> is 8, \<open>'>I'\<close> is 4, \<open>'>B'\<close> is 1). Packing a value that does not fit and unpacking
  a buffer of another length raise \<open>struct.error\<close>.\<close>

definition struct_pack :: "nat \<Rightarrow> int \<Rightarrow> error + bytes" where
  "struct_pack k v =
     (if 0 \<le> v \<and> v < 256 ^ k then Inr (int_to_bytes_big k (nat v))
      else Inl (StructError ''argument out of range''))"

definition struct_unpack :: "nat \<Rightarrow> bytes \<Rightarrow> error + int" where
  "struct_unpack k buffer =
     (if length buffer = k then Inr (int (int_from_bytes_big buffer))
      else Inl (StructError ''unpack requires a buffer of another size''))"

text \<open>The 16-bit end marker \<open>'1111111111111110'\<close>.\<close>

definition end_marker :: bitstr where
  "end_marker = replicate 15 True @ [False]"

text \<open>\<open>''.join(format(byte, '08b') for byte in data)\<close>.\<close>

definition bytes_to_binary :: "bytes \<Rightarrow> bitstr" where
  "bytes_to_binary data = concat (map (\<lambda>byte. format_bin 8 (unat byte)) data)"

text \<open>The conversion loop shared by both extractors:
  \<^verbatim>\<open>for i in range(0, len(binary_data), 8):
    byte_str = binary_data[i:i+8]
    if len(byte_str) == 8: bytes_data.append(int(byte_str, 2))\<close>\<close>

definition binary_to_bytes :: "bitstr \<Rightarrow> bytes" where
  "binary_to_bytes binary_data =
     foldl (\<lambda>bytes_data i.
              (let byte_str = take 8 (drop i binary_data)
               in if length byte_str = 8 then bytes_data @ [of_nat (int2 byte_str)]
                  else bytes_data))
           [] (map (\<lambda>k. 8 * k) [0..<(length binary_data + 7) div 8])"

section \<open>Sequential extraction\<close>

text \<open>The scan loop of \<open>_lsb_extract_secure\<close>: every sample contributes
  \<open>format(pixel & ((1 << bits) - 1), f'0{bits}b')\<close>.\<close>

definition sample_lsb :: "nat \<Rightarrow> byte \<Rightarrow> bitstr" where
  "sample_lsb bits pixel = format_bin bits (unat (pixel AND (push_bit bits 1 - 1)))"

primrec extract_scan :: "nat \<Rightarrow> byte list \<Rightarrow> bitstr \<Rightarrow> bitstr" where
  "extract_scan bits [] binary_data = binary_data"
| "extract_scan bits (pixel # rest) binary_data =
     extract_scan bits rest (binary_data @ sample_lsb bits pixel)"

definition cut_at_marker :: "bitstr \<Rightarrow> bitstr" where
  "cut_at_marker binary_data =
     (case str_find end_marker binary_data of
        Some k \<Rightarrow> take k binary_data
      | None \<Rightarrow> binary_data)"

definition lsb_extract_secure :: "ndarray \<Rightarrow> nat \<Rightarrow> bytes" where
  "lsb_extract_secure img_array bits =
     (let flat_img = flat img_array;
          binary_data = extract_scan bits flat_img [];
          binary_data = cut_at_marker binary_data
      in binary_to_bytes binary_data)"

section \<open>Permuted extraction\<close>

text \<open>The seed of the generator: \<open>int.from_bytes(hashlib.sha256(password.encode()).digest()[:4], 'big')\<close>.\<close>

definition password_seed :: "lib \<Rightarrow> string \<Rightarrow> nat" where
  "password_seed L password = int_from_bytes_big (take 4 (sha256 L (encode password)))"

text \<open>The scan loop of \<open>_lsb_random_extract\<close>:
  \<^verbatim>\<open>for pos, idx in enumerate(indices):
    binary_data[idx] = format(flat_img[idx] & ((1 << bits) - 1), f'0{bits}b')\<close>
  An index outside the array raises \<open>IndexError\<close>.\<close>

primrec random_scan :: "nat \<Rightarrow> byte list \<Rightarrow> nat list \<Rightarrow> bitstr list \<Rightarrow> error + bitstr list" where
  "random_scan bits flat_img [] binary_data = Inr binary_data"
| "random_scan bits flat_img (idx # rest) binary_data =
     (if length flat_img \<le> idx then Inl (IndexError ''index out of bounds'')
      else random_scan bits flat_img rest (binary_data[idx := sample_lsb bits (flat_img ! idx)]))"

definition lsb_random_extract :: "lib \<Rightarrow> ndarray \<Rightarrow> nat \<Rightarrow> string \<Rightarrow> error + bytes" where
  "lsb_random_extract L img_array bits password =
     (let seed = password_seed L password;
          flat_img = flat img_array;
          indices = np_permutation L seed (length flat_img);
          binary_data = replicate (length flat_img) []
      in then_e (random_scan bits flat_img indices binary_data) (\<lambda>binary_data.
           (let full_binary = concat binary_data;
                full_binary = cut_at_marker full_binary
            in Inr (binary_to_bytes full_binary))))"

section \<open>Embedding\<close>

text \<open>
  Both embedders run the same loop body over a sequence of sample indices: \<open>range(len(flat_img))\<close>
  in \<open>_lsb_embed_secure\<close>, the permutation in \<open>_lsb_random_embed\<close>.
  \<^verbatim>\<open>if data_index >= len(binary_data): break
current_val = flat_img[i]
mask = (255 >> bits) << bits
cleared_val = current_val & mask
chunk = binary_data[data_index:data_index + bits]
if chunk:
    new_lsb = int(chunk.ljust(bits, '0'), 2)
    flat_img[i] = cleared_val | new_lsb
data_index += bits\<close>
  The stored value is a \<open>uint8\<close>; for the validated bit depths 1 to 4 nothing is cut off.
\<close>

fun embed_loop :: "bitstr \<Rightarrow> nat \<Rightarrow> nat list \<Rightarrow> nat \<Rightarrow> byte list \<Rightarrow> error + byte list" where
  "embed_loop binary_data bits [] data_index flat_img = Inr flat_img"
| "embed_loop binary_data bits (i # rest) data_index flat_img =
     (if length binary_data \<le> data_index then Inr flat_img
      else if length flat_img \<le> i then Inl (IndexError ''index out of bounds'')
      else
        (let current_val = flat_img ! i;
             mask = push_bit bits (drop_bit bits 255);
             cleared_val = current_val AND mask;
             chunk = py_slice binary_data data_index (data_index + bits);
             flat_img' =
               (if chunk \<noteq> [] then
                  (let new_lsb = int2 (ljust chunk bits);
                       new_val = cleared_val OR of_nat new_lsb
                   in flat_img[i := new_val])
                else flat_img)
         in embed_loop binary_data bits rest (data_index + bits) flat_img'))"

definition lsb_embed_secure :: "ndarray \<Rightarrow> bytes \<Rightarrow> nat \<Rightarrow> error + ndarray" where
  "lsb_embed_secure img_array data bits =
     (let binary_data = bytes_to_binary data @ end_marker;
          flat_img = flat img_array;
          required_bits = length binary_data;
          available_bits = length flat_img * bits
      in if available_bits < required_bits then Inl (ValueError ''Insufficient capacity'')
         else then_e (embed_loop binary_data bits [0..<length flat_img] 0 flat_img)
                (\<lambda>flat_img. Inr (img_array\<lparr>flat := flat_img\<rparr>)))"

definition lsb_random_embed :: "lib \<Rightarrow> ndarray \<Rightarrow> bytes \<Rightarrow> nat \<Rightarrow> string \<Rightarrow> error + ndarray" where
  "lsb_random_embed L img_array data bits password =
     (let seed = password_seed L password;
          flat_img = flat img_array;
          indices = np_permutation L seed (length flat_img);
          binary_data = bytes_to_binary data @ end_marker
      in then_e (embed_loop binary_data bits indices 0 flat_img)
           (\<lambda>flat_img. Inr (img_array\<lparr>flat := flat_img\<rparr>)))"

section \<open>Crypto transform\<close>

definition derive_key :: "lib \<Rightarrow> string \<Rightarrow> nat \<Rightarrow> bytes" where
  "derive_key L password key_length =
     (let salt = encode ''steganoguard_salt_2024''
      in pbkdf2_hmac_sha256 L (encode password) salt 100000 key_length)"

text \<open>\<open>CryptoManager()\<close> raises \<open>ImportError\<close> when PyCryptodome is missing; \<open>encrypt\<close> and
  \<open>decrypt\<close> are the default AES-256-GCM paths, the only ones the engine calls.\<close>

definition crypto_manager :: "lib \<Rightarrow> error + unit" where
  "crypto_manager L =
     (if crypto_available L then Inr () else Inl (ImportError ''PyCryptodome is not installed''))"

definition encrypt :: "lib \<Rightarrow> run \<Rightarrow> bytes \<Rightarrow> string \<Rightarrow> bytes" where
  "encrypt L R data password =
     (let key = derive_key L password 32;
          iv = get_random_bytes R 12;
          (ciphertext, tag) = gcm_encrypt_and_digest L key iv data
      in iv @ tag @ ciphertext)"

definition decrypt :: "lib \<Rightarrow> bytes \<Rightarrow> string \<Rightarrow> error + bytes" where
  "decrypt L encrypted_data password =
     (let key = derive_key L password 32;
          iv = py_slice encrypted_data 0 12;
          tag = py_slice encrypted_data 12 28;
          ciphertext = drop 28 encrypted_data
      in case gcm_decrypt_and_verify L key iv ciphertext tag of
           Inr decrypted_data \<Rightarrow> Inr decrypted_data
         | Inl m \<Rightarrow> Inl (ValueError (''Decryption failed: '' @ m)))"

section \<open>Payload codec\<close>

record header_data =
  magic :: bytes
  timestamp :: int
  original_size :: int
  processed_size :: int
  encrypted :: int
  compressed :: int
  checksum :: bytes

definition stegano_magic :: bytes where
  "stegano_magic = encode ''STEGANO01''"

text \<open>The packing half of \<open>_create_secure_header\<close>.\<close>

definition pack_header :: "header_data \<Rightarrow> error + bytes" where
  "pack_header h =
     then_e (struct_pack 8 (timestamp h)) (\<lambda>ts.
     then_e (struct_pack 4 (original_size h)) (\<lambda>os.
     then_e (struct_pack 4 (processed_size h)) (\<lambda>ps.
     then_e (struct_pack 1 (encrypted h)) (\<lambda>en.
     then_e (struct_pack 1 (compressed h)) (\<lambda>co.
       Inr (magic h @ ts @ os @ ps @ en @ co @ checksum h))))))"

definition create_secure_header :: "lib \<Rightarrow> run \<Rightarrow> bytes \<Rightarrow> bytes \<Rightarrow> bool \<Rightarrow> error + bytes" where
  "create_secure_header L R original_data processed_data is_encrypted =
     pack_header
       \<lparr>magic = stegano_magic,
        timestamp = time_now R,
        original_size = int (length original_data),
        processed_size = int (length processed_data),
        encrypted = (if is_encrypted then 1 else 0),
        compressed = 1,
        checksum = take 16 (sha256 L original_data)\<rparr>"

definition prepare_data_with_security :: "lib \<Rightarrow> run \<Rightarrow> bytes \<Rightarrow> string \<Rightarrow> error + bytes" where
  "prepare_data_with_security L R data password =
     (let compressed_data = zlib_compress L data
      in then_e (if password \<noteq> [] then
                   then_e (crypto_manager L) (\<lambda>crypto. Inr (encrypt L R compressed_data password))
                 else Inr compressed_data) (\<lambda>compressed_data.
         then_e (create_secure_header L R data compressed_data (password \<noteq> [])) (\<lambda>header.
           Inr (header @ compressed_data))))"

text \<open>The field reads of \<open>_process_extracted_data\<close>, at the fixed offsets.\<close>

definition parse_header :: "bytes \<Rightarrow> error + header_data" where
  "parse_header extracted_bytes =
     then_e (struct_unpack 8 (py_slice extracted_bytes 9 17)) (\<lambda>ts.
     then_e (struct_unpack 4 (py_slice extracted_bytes 17 21)) (\<lambda>os.
     then_e (struct_unpack 4 (py_slice extracted_bytes 21 25)) (\<lambda>ps.
     then_e (struct_unpack 1 (py_slice extracted_bytes 25 26)) (\<lambda>en.
     then_e (struct_unpack 1 (py_slice extracted_bytes 26 27)) (\<lambda>co.
       Inr \<lparr>magic = py_slice extracted_bytes 0 9,
            timestamp = ts,
            original_size = os,
            processed_size = ps,
            encrypted = en,
            compressed = co,
            checksum = py_slice extracted_bytes 27 43\<rparr>)))))"

definition legacy_info :: pydict where
  "legacy_info = [''legacy_mode'' \<mapsto> PyBool True]"

text \<open>The body of the \<open>try\<close> block of \<open>_process_extracted_data\<close>.\<close>

definition process_secure :: "lib \<Rightarrow> bytes \<Rightarrow> string \<Rightarrow> error + bytes \<times> pydict" where
  "process_secure L extracted_bytes password =
     (if length extracted_bytes < 32 then Inr (extracted_bytes, legacy_info)
      else if py_slice extracted_bytes 0 9 \<noteq> stegano_magic then Inr (extracted_bytes, legacy_info)
      else
        then_e (parse_header extracted_bytes) (\<lambda>h.
        (let data_part = py_slice extracted_bytes 43 (43 + nat (processed_size h))
         in then_e (if encrypted h \<noteq> 0 \<and> password \<noteq> [] then
                      then_e (crypto_manager L) (\<lambda>crypto. decrypt L data_part password)
                    else Inr data_part) (\<lambda>data_part.
            then_e (if compressed h \<noteq> 0 then zlib_decompress L data_part
                    else Inr data_part) (\<lambda>data_part.
            (let calculated_checksum = take 16 (sha256 L data_part);
                 integrity_ok = (checksum h = calculated_checksum);
                 extraction_info =
                   [''success'' \<mapsto> PyBool True,
                    ''timestamp'' \<mapsto> PyInt (timestamp h),
                    ''original_size'' \<mapsto> PyInt (original_size h),
                    ''encrypted'' \<mapsto> PyBool (encrypted h \<noteq> 0),
                    ''compressed'' \<mapsto> PyBool (compressed h \<noteq> 0),
                    ''integrity_verified'' \<mapsto> PyBool integrity_ok,
                    ''extraction_method'' \<mapsto> PyStr ''secure'']
             in Inr (data_part, extraction_info)))))))"

text \<open>\<open>_process_extracted_data\<close>: the \<open>try\<close> block, and the two handlers behind it.\<close>

definition process_extracted_data :: "lib \<Rightarrow> bytes \<Rightarrow> string \<Rightarrow> error + bytes \<times> pydict" where
  "process_extracted_data L extracted_bytes password =
     (case process_secure L extracted_bytes password of
        Inr result \<Rightarrow> Inr result
      | Inl e \<Rightarrow>
          (case zlib_decompress L extracted_bytes of
             Inr decompressed \<Rightarrow>
               Inr (decompressed, [''legacy_mode'' \<mapsto> PyBool True, ''success'' \<mapsto> PyBool True])
           | Inl e' \<Rightarrow>
               Inr (extracted_bytes,
                    [''success'' \<mapsto> PyBool False, ''error'' \<mapsto> PyStr (error_str e)])))"

section \<open>Engine entry points\<close>

text \<open>
  The entry points read the carrier from a file; the model starts from the pixel array the
  image adapter hands over (for embedding, after the conversion to RGB or RGBA). The metadata
  dictionary of \<open>embed_data_secure\<close> (file statistics and wall-clock strings) is left out.
  The bit depth is a natural number; \<open>_validate_inputs\<close> lets only 1 to 4 through.
\<close>

definition validate_inputs :: "bytes \<Rightarrow> nat \<Rightarrow> error + unit" where
  "validate_inputs data bits =
     (if bits \<notin> set [1, 2, 3, 4] then Inl (ValueError ''Bits must be between 1 and 4'')
      else if length data = 0 then Inl (ValueError ''Data cannot be empty'')
      else Inr ())"

definition embed_data_secure ::
  "lib \<Rightarrow> run \<Rightarrow> ndarray \<Rightarrow> bytes \<Rightarrow> string \<Rightarrow> nat \<Rightarrow> string \<Rightarrow> error + ndarray" where
  "embed_data_secure L R img_array data password bits technique =
     then_e (validate_inputs data bits) (\<lambda>ok.
     then_e (prepare_data_with_security L R data password) (\<lambda>processed_data.
       if technique = ''LSB'' then lsb_embed_secure img_array processed_data bits
       else if technique = ''LSB_RANDOM'' then
         lsb_random_embed L img_array processed_data bits password
       else lsb_embed_secure img_array processed_data bits))"

definition extract_data_secure ::
  "lib \<Rightarrow> ndarray \<Rightarrow> string \<Rightarrow> nat \<Rightarrow> string \<Rightarrow> error + bytes \<times> pydict" where
  "extract_data_secure L img_array password bits technique =
     then_e (if technique = ''LSB_RANDOM'' then lsb_random_extract L img_array bits password
             else Inr (lsb_extract_secure img_array bits)) (\<lambda>extracted_bytes.
       process_extracted_data L extracted_bytes password)"

text \<open>The composite of the round-trip property, \<open>extract(embed(buffer, D, P, b, T), P, b, T)\<close>:
  the stego array goes to the extractor as it is (a lossless save and load), and the payload
  is the first component of what the extractor returns.\<close>

definition roundtrip ::
  "lib \<Rightarrow> run \<Rightarrow> ndarray \<Rightarrow> bytes \<Rightarrow> string \<Rightarrow> nat \<Rightarrow> string \<Rightarrow> error + bytes" where
  "roundtrip L R img_array data password bits technique =
     then_e (embed_data_secure L R img_array data password bits technique) (\<lambda>stego_array.
     then_e (extract_data_secure L stego_array password bits technique)
       (\<lambda>(original_data, extraction_info). Inr original_data))"

section \<open>Capacity analysis\<close>

text \<open>
  One entry of \<open>capacity_analysis\<close>; the key \<open>f'{bit_depth}_bit_lsb'\<close> is represented by the bit
  depth. The \<open>kilobytes\<close> and \<open>megabytes\<close> entries are floating-point renderings of \<open>bytes\<close> and
  are left out, as is the PIL mode string.
\<close>

record capacity_entry =
  capacity_bytes :: int
  bits_used :: nat

record capacity_report =
  dimensions :: "nat list"
  total_pixels :: nat
  channels :: nat
  capacity_analysis :: "(nat \<times> capacity_entry) list"
  security_recommendations :: "string list"

definition analyze_capacity :: "ndarray \<Rightarrow> error + capacity_report" where
  "analyze_capacity img_array =
     (let image_channels = (if 2 < length (shape img_array) then shape img_array ! 2 else 1);
          entries =
            map (\<lambda>bit_depth.
                   (let capacity_bits = int (np_size img_array) * int bit_depth;
                        cap_bytes = (capacity_bits - 256) div 8
                    in (bit_depth, \<lparr>capacity_bytes = cap_bytes, bits_used = bit_depth\<rparr>)))
                [1, 2, 3, 4]
      in if length (shape img_array) < 2 then Inl (IndexError ''tuple index out of range'')
         else Inr
           \<lparr>dimensions = shape img_array,
            total_pixels = np_size img_array,
            channels = image_channels,
            capacity_analysis = entries,
            security_recommendations =
              [if 1000000 < shape img_array ! 0 * shape img_array ! 1
               then ''Use 1-2 bit LSB for better stealth in large images''
               else ''Use 2-4 bit LSB for optimal capacity in small images'']\<rparr>)"

section \<open>The extractor as the specification words it\<close>

text \<open>
  The specification describes the sequential extractor as: concatenate the low \<open>b\<close> bits of
  each sample in index order; truncate the bitstream at the start of the first occurrence of
  the end marker (keep all of it when there is none); convert 8 bits at a time, most
  significant bit first, and discard a trailing partial byte. The definitions below follow
  these words, independently of the code.
\<close>

definition spec_low_bits :: "nat \<Rightarrow> byte \<Rightarrow> bitstr" where
  "spec_low_bits b sample = map (bit sample) (rev [0..<b])"

definition spec_bitstream :: "nat \<Rightarrow> byte list \<Rightarrow> bitstr" where
  "spec_bitstream b buffer = concat (map (spec_low_bits b) buffer)"

definition spec_truncate :: "bitstr \<Rightarrow> bitstr" where
  "spec_truncate s =
     (case List.find (\<lambda>i. take 16 (drop i s) = end_marker) [0..<length s] of
        Some i \<Rightarrow> take i s
      | None \<Rightarrow> s)"

definition spec_byte :: "bitstr \<Rightarrow> byte" where
  "spec_byte s = (\<Sum>i<8. if s ! i then 2 ^ (7 - i) else 0)"

definition spec_bytes :: "bitstr \<Rightarrow> bytes" where
  "spec_bytes s = map (\<lambda>k. spec_byte (take 8 (drop (8 * k) s))) [0..<length s div 8]"

definition spec_extract :: "byte list \<Rightarrow> nat \<Rightarrow> bytes" where
  "spec_extract buffer b = spec_bytes (spec_truncate (spec_bitstream b buffer))"

section \<open>Auxiliary notions\<close>

text \<open>What numpy promises of \<open>permutation(n)\<close>: the numbers below \<open>n\<close>, each once.\<close>

definition is_permutation :: "nat list \<Rightarrow> nat \<Rightarrow> bool" where
  "is_permutation indices n \<longleftrightarrow> sort indices = [0..<n]"

text \<open>The value one pass of the embedding loop stores, and the sequential embedder as a
  recursion over the samples; the loop over \<open>range(len(flat_img))\<close> is shown to compute it.\<close>

definition embed_sample :: "bitstr \<Rightarrow> nat \<Rightarrow> nat \<Rightarrow> byte \<Rightarrow> byte" where
  "embed_sample binary_data bits data_index current_val =
     (current_val AND push_bit bits (drop_bit bits 255))
       OR of_nat (int2 (ljust (py_slice binary_data data_index (data_index + bits)) bits))"

fun seq_embed :: "bitstr \<Rightarrow> nat \<Rightarrow> nat \<Rightarrow> byte list \<Rightarrow> byte list" where
  "seq_embed binary_data bits data_index [] = []"
| "seq_embed binary_data bits data_index (v # vs) =
     (if length binary_data \<le> data_index then v # vs
      else embed_sample binary_data bits data_index v
             # seq_embed binary_data bits (data_index + bits) vs)"

section \<open>Recorded library values\<close>

text \<open>
  To run the model on concrete inputs, the library record is filled with values of the real
  libraries at the arguments the examples below reach: \<open>zlib.compress(d, 9)\<close> (zlib 1.2.13) and
  \<open>hashlib.sha256(d).digest()\<close> for the payloads \<open>b'A'\<close> and 32767 zero bytes, and
  \<open>RandomState(seed).permutation(n)\<close> for the seeds of the passwords \<open>''\<close> (3820012610) and
  \<open>'k'\<close> (2186593065). Outside these points the record holds simple stand-ins; the cipher
  is a stand-in throughout (the text itself as ciphertext, a zero tag), and no example below
  depends on its output.
\<close>

definition zero_payload :: bytes where
  "zero_payload = replicate 32767 0"

definition recorded_zlib :: "(bytes \<times> bytes) list" where
  "recorded_zlib =
     [([65], [120, 218, 115, 4, 0, 0, 66, 0, 66]),
      (zero_payload,
       [120, 218, 237, 193, 1, 1, 0, 0, 0, 130, 32, 255, 175, 110, 72, 64, 1, 0, 0, 0, 0, 0,
        0, 0, 0, 0, 0, 0, 0, 0, 0, 0, 0, 0, 0, 0, 0, 0, 0, 0, 0, 0, 0, 0, 0, 0, 0, 192,
        189, 1, 127, 255, 0, 1])]"

definition recorded_sha256 :: "(bytes \<times> bytes) list" where
  "recorded_sha256 =
     [([65],
       [85, 154, 234, 208, 130, 100, 213, 121, 93, 57, 9, 113, 140, 221, 5, 171,
        212, 149, 114, 232, 79, 229, 85, 144, 238, 243, 26, 136, 160, 143, 223, 253]),
      (zero_payload,
       [101, 221, 74, 200, 52, 81, 17, 32, 216, 29, 18, 63, 62, 1, 184, 172,
        249, 12, 137, 94, 136, 172, 230, 41, 22, 88, 31, 200, 233, 82, 166, 42]),
      ([],
       [227, 176, 196, 66, 152, 252, 28, 20, 154, 251, 244, 200, 153, 111, 185, 36,
        39, 174, 65, 228, 100, 155, 147, 76, 164, 149, 153, 27, 120, 82, 184, 85]),
      ([107],
       [130, 84, 195, 41, 169, 40, 80, 246, 213, 57, 221, 55, 111, 72, 22, 238,
        39, 100, 81, 125, 165, 224, 35, 85, 20, 175, 67, 49, 100, 72, 13, 122])]"

definition recorded_permutation :: "((nat \<times> nat) \<times> nat list) list" where
  "recorded_permutation =
     [((3820012610, 12), [11, 4, 5, 9, 6, 7, 10, 2, 1, 8, 0, 3]),
      ((3820012610, 108),
       [66, 37, 70, 19, 42, 63, 31, 86, 17, 25, 26, 94, 69, 56, 91, 90, 12, 103, 102,
        48, 49, 47, 64, 24, 89, 34, 100, 99, 54, 35, 107, 4, 32, 21, 55, 80, 76, 98, 11,
        81, 14, 67, 61, 85, 43, 104, 79, 27, 59, 18, 57, 41, 106, 52, 20, 45, 44, 22,
        53, 62, 5, 82, 68, 36, 95, 83, 50, 3, 77, 71, 97, 13, 23, 74, 10, 28, 40, 9, 29,
        92, 84, 7, 73, 72, 75, 30, 16, 105, 60, 38, 33, 65, 8, 6, 39, 87, 2, 101, 93,
        15, 46, 0, 58, 1, 88, 96, 51, 78]),
      ((2186593065, 3), [1, 0, 2]),
      ((2186593065, 36),
       [17, 20, 21, 4, 3, 29, 25, 34, 5, 0, 35, 10, 12, 6, 1, 27, 11, 33, 31, 28, 2, 22, 9,
        23, 19, 32, 15, 26, 14, 18, 7, 13, 8, 16, 24, 30])]"

text \<open>What the permuted embed makes of a 6 by 6 RGB carrier with all samples 200, for the
  envelope \<open>framed_A\<close> at 4 bits and the empty password, and what the extractor reads from it.\<close>

definition stego_108 :: "byte list" where
  "stego_108 =
     [192, 194, 192, 197, 193, 205, 196, 205, 192, 193, 192, 192, 195, 205, 192, 194,
      199, 196, 201, 196, 197, 192, 202, 195, 192, 193, 196, 192, 201, 200, 203, 196,
      192, 199, 192, 195, 194, 195, 202, 192, 199, 192, 196, 192, 201, 197, 192, 192,
      192, 192, 205, 207, 193, 206, 197, 192, 207, 192, 196, 192, 205, 192, 202, 197,
      192, 195, 197, 193, 200, 196, 197, 201, 197, 192, 201, 202, 192, 199, 206, 192,
      192, 192, 192, 196, 205, 192, 199, 192, 207, 192, 192, 195, 204, 196, 206, 198,
      207, 197, 192, 197, 198, 192, 192, 193, 192, 200, 192, 207]"

definition extracted_108 :: bytes where
  "extracted_108 =
     [2, 5, 29, 77, 1, 0, 61, 2, 116, 148, 80, 163, 1, 64, 152, 180, 7, 3, 35, 160, 112,
      64, 149, 0, 0, 223, 30, 80, 240, 64, 208, 165, 3, 81, 132, 89, 80, 154, 7, 224, 0,
      4, 208, 112, 240, 3, 196, 230, 245, 5, 96, 1, 8, 15]"

definition recorded_lib :: lib where
  "recorded_lib =
     \<lparr>zlib_compress = (\<lambda>d. case map_of recorded_zlib d of Some z \<Rightarrow> z | None \<Rightarrow> d),
      zlib_decompress =
        (\<lambda>z. case map_of (map prod.swap recorded_zlib) z of
               Some d \<Rightarrow> Inr d
             | None \<Rightarrow> Inl (ZlibError ''Error -3 while decompressing data: incorrect header check'')),
      sha256 = (\<lambda>d. case map_of recorded_sha256 d of Some h \<Rightarrow> h | None \<Rightarrow> replicate 32 0),
      pbkdf2_hmac_sha256 = (\<lambda>password salt iterations key_length. replicate key_length 0),
      crypto_available = True,
      gcm_encrypt_and_digest = (\<lambda>key iv data. (data, replicate 16 0)),
      gcm_decrypt_and_verify =
        (\<lambda>key iv ciphertext tag.
           if tag = replicate 16 0 then Inr ciphertext else Inl ''MAC check failed''),
      np_permutation =
        (\<lambda>seed n. case map_of recorded_permutation (seed, n) of
                    Some indices \<Rightarrow> indices
                  | None \<Rightarrow> [0..<n])\<rparr>"

text \<open>A run that reads the clock at 1700000000 and draws zero bytes.\<close>

definition recorded_run :: run where
  "recorded_run = \<lparr>time_now = 1700000000, get_random_bytes = (\<lambda>n. replicate n 0)\<rparr>"

text \<open>An envelope as an extractor may hand it over: a well-formed header (timestamp
  1700000000, original size 1, processed size 4, compressed) with the given encrypted flag,
  followed by the four payload bytes \<open>b'AAAA'\<close>, which are not a zlib stream.\<close>

definition sample_envelope :: "byte \<Rightarrow> bytes" where
  "sample_envelope encrypted_flag =
     stegano_magic @ [0, 0, 0, 0, 101, 83, 241, 0] @ [0, 0, 0, 1] @ [0, 0, 0, 4]
       @ [encrypted_flag] @ [1] @ replicate 16 0 @ [65, 65, 65, 65]"

text \<open>The envelope of the payload \<open>b'A'\<close> without password, packed at clock 1700000000: the
  header (original size 1, processed size 9, not encrypted, compressed, the first 16 digest
  bytes) and the 9 compressed bytes.\<close>

definition framed_A :: bytes where
  "framed_A = [83, 84, 69, 71, 65, 78, 79, 48, 49, 0, 0, 0, 0, 101, 83, 241, 0, 0,
          0, 0, 1, 0, 0, 0, 9, 0, 1, 85, 154, 234, 208, 130, 100, 213, 121,
          93, 57, 9, 113, 140, 221, 5, 171, 120, 218, 115, 4, 0, 0, 66, 0, 66]"

text \<open>The envelope of \<open>b'A'\<close> under the password \<open>'k'\<close>, packed at clock 1700000000 with a zero
  nonce: processed size 37, encrypted, and behind the header the nonce, the tag and the
  stand-in ciphertext.\<close>

definition framed_k :: bytes where
  "framed_k =
     stegano_magic @ [0, 0, 0, 0, 101, 83, 241, 0] @
       [0, 0, 0, 1, 0, 0, 0, 37, 1, 1,
        85, 154, 234, 208, 130, 100, 213, 121, 93, 57, 9, 113, 140, 221, 5, 171] @
       replicate 12 0 @ replicate 16 0 @ [120, 218, 115, 4, 0, 0, 66, 0, 66]"

text \<open>The envelope of 32767 zero bytes without password, packed at clock 1700000000: the
  original size 32767 is the bytes \<open>00 00 7F FF\<close>, and the processed size 54 begins with a zero
  bit.\<close>

definition framed_zero :: bytes where
  "framed_zero =
     [83, 84, 69, 71, 65, 78, 79, 48, 49, 0, 0, 0, 0, 101, 83, 241, 0, 0, 0, 127, 255, 0] @
     [0, 0, 54, 0, 1, 101, 221, 74, 200, 52, 81, 17, 32, 216, 29, 18, 63, 62, 1,
      184, 172, 120, 218, 237, 193, 1, 1, 0, 0, 0, 130, 32, 255, 175, 110, 72, 64,
      1, 0, 0, 0, 0, 0, 0, 0, 0, 0, 0, 0, 0, 0, 0, 0, 0, 0, 0, 0, 0, 0, 0, 0, 0, 0,
      0, 0, 0, 0, 0, 192, 189, 1, 127, 255, 0, 1]"

section \<open>Bit strings\<close>

lemma int2_snoc: "int2 (s @ [c]) = 2 * int2 s + of_bool c"
  by (simp add: int2_def)

lemma int2_Nil: "int2 [] = 0"
  by (simp add: int2_def)

lemma int2_append: "int2 (s @ t) = int2 s * 2 ^ length t + int2 t"
proof (induction t rule: rev_induct)
  case Nil
  then show ?case by (simp add: int2_Nil)
next
  case (snoc c t)
  have "int2 (s @ t @ [c]) = 2 * int2 (s @ t) + of_bool c"
    using int2_snoc [of "s @ t" c] by simp
  then show ?case by (simp add: snoc int2_snoc algebra_simps)
qed

lemma int2_Cons: "int2 (c # s) = of_bool c * 2 ^ length s + int2 s"
  using int2_append [of "[c]" s] int2_snoc [of "[]" c] by (simp add: int2_Nil)

lemma int2_replicate_False: "int2 (replicate k False) = 0"
  by (induction k) (simp_all add: int2_Nil int2_Cons)

lemma int2_less: "int2 s < 2 ^ length s"
proof (induction s rule: rev_induct)
  case Nil
  then show ?case by (simp add: int2_Nil)
next
  case (snoc c s)
  then show ?case by (cases c) (simp_all add: int2_snoc)
qed

lemma int2_inj: "length s = length t \<Longrightarrow> int2 s = int2 t \<Longrightarrow> s = t"
proof (induction s t rule: list_induct2)
  case Nil
  then show ?case by simp
next
  case (Cons x xs y ys)
  have lx: "int2 xs < 2 ^ length xs" and ly: "int2 ys < 2 ^ length xs"
    using int2_less [of xs] int2_less [of ys] Cons.hyps by simp_all
  from Cons.prems have e: "of_bool x * 2 ^ length xs + int2 xs = of_bool y * 2 ^ length xs + int2 ys"
    using Cons.hyps by (simp add: int2_Cons)
  have "x = y" using e lx ly by (cases x; cases y) simp_all
  with e Cons.IH show ?case by simp
qed

lemma int2_bin_digits: "int2 (bin_digits n) = n"
proof (induction n rule: bin_digits.induct)
  case (1 n)
  show ?case
  proof (cases "n < 2")
    case True
    then have "n = 0 \<or> n = 1" by arith
    then show ?thesis by (auto simp: bin_digits.simps [of n] int2_def)
  next
    case False
    with 1 have "int2 (bin_digits (n div 2)) = n div 2" by simp
    with False show ?thesis
      by (simp add: bin_digits.simps [of n] int2_snoc)
  qed
qed

lemma length_bin_digits_le: "n < 2 ^ w \<Longrightarrow> 0 < w \<Longrightarrow> length (bin_digits n) \<le> w"
proof (induction n arbitrary: w rule: bin_digits.induct)
  case (1 n)
  show ?case
  proof (cases "n < 2")
    case True
    with 1 show ?thesis by (simp add: bin_digits.simps [of n]) 
  next
    case False
    with "1.prems" obtain v where w: "w = Suc v" by (cases w) auto
    with False "1.prems" have v: "0 < v" by (cases v) auto
    from "1.prems" w have "n div 2 < 2 ^ v" by auto
    with 1 False v have "length (bin_digits (n div 2)) \<le> v" by simp
    with False w show ?thesis by (simp add: bin_digits.simps [of n])
  qed
qed

lemma int2_format_bin: "int2 (format_bin w n) = n"
  by (simp add: format_bin_def Let_def int2_append int2_replicate_False int2_bin_digits)

lemma length_format_bin: "n < 2 ^ w \<Longrightarrow> 0 < w \<Longrightarrow> length (format_bin w n) = w"
  using length_bin_digits_le [of n w] by (simp add: format_bin_def Let_def)

lemma format_bin_int2: "0 < length s \<Longrightarrow> format_bin (length s) (int2 s) = s"
  by (rule int2_inj) (simp_all add: length_format_bin int2_less int2_format_bin)

section \<open>The sequential extractor meets its specification\<close>

lemma extract_scan_eq: "extract_scan bits flat_img acc = acc @ concat (map (sample_lsb bits) flat_img)"
  by (induction flat_img arbitrary: acc) simp_all

lemma int2_bits_of: "int2 (map (bit (p::byte)) (rev [0..<b])) = unat (take_bit b p)"
proof (induction b)
  case 0
  then show ?case by (simp add: int2_Nil)
next
  case (Suc b)
  have "unat (take_bit (Suc b) p) = take_bit (Suc b) (unat p)"
    by (simp add: unsigned_take_bit_eq)
  also have "\<dots> = 2 ^ b * of_bool (bit (unat p) b) + take_bit b (unat p)"
    by (rule take_bit_Suc_from_most)
  also have "bit (unat p) b = bit p b"
    by (simp add: bit_unsigned_iff)
  also have "take_bit b (unat p) = unat (take_bit b p)"
    by (simp add: unsigned_take_bit_eq)
  finally show ?case using Suc by (simp add: int2_Cons)
qed

lemma lsb_mask_eq: "p AND (push_bit bits 1 - 1) = take_bit bits (p::byte)"
  by (simp add: take_bit_eq_mask mask_eq_exp_minus_1)

lemma unat_take_bit_less: "unat (take_bit b (p::byte)) < 2 ^ b"
  by (simp add: unsigned_take_bit_eq)

lemma sample_lsb_spec: "0 < bits \<Longrightarrow> sample_lsb bits p = spec_low_bits bits p"
  unfolding sample_lsb_def spec_low_bits_def lsb_mask_eq
  by (rule int2_inj) (simp_all add: length_format_bin unat_take_bit_less int2_format_bin int2_bits_of)

lemma find_upt_Suc:
  "List.find P [0..<Suc n] = (if P 0 then Some 0 else map_option Suc (List.find (\<lambda>i. P (Suc i)) [0..<n]))"
proof -
  have "[0..<Suc n] = 0 # map Suc [0..<n]"
    by (simp add: upt_conv_Cons map_Suc_upt del: upt_Suc)
  moreover have "List.find P (map Suc xs) = map_option Suc (List.find (\<lambda>i. P (Suc i)) xs)" for xs
    by (induction xs) simp_all
  ultimately show ?thesis by simp
qed

lemma prefix_iff_take: "prefix m s \<longleftrightarrow> take (length m) s = m"
  by (metis append_eq_conv_conj prefix_def take_is_prefix)

lemma str_find_eq_find:
  "m \<noteq> [] \<Longrightarrow> str_find m s = List.find (\<lambda>i. take (length m) (drop i s) = m) [0..<length s]"
proof (induction s)
  case Nil
  then show ?case by simp
next
  case (Cons c s)
  then show ?case
    by (simp add: find_upt_Suc prefix_iff_take del: upt_Suc)
qed

lemma length_end_marker: "length end_marker = 16"
  by (simp add: end_marker_def)

lemma cut_at_marker_spec: "cut_at_marker s = spec_truncate s"
proof -
  have "end_marker \<noteq> []" by (simp add: end_marker_def)
  then show ?thesis
    unfolding cut_at_marker_def spec_truncate_def
    by (simp add: str_find_eq_find length_end_marker)
qed

lemma foldl_cond_snoc:
  "foldl (\<lambda>acc i. if P i then acc @ [f i] else acc) a xs = a @ map f (filter P xs)"
  by (induction xs arbitrary: a) simp_all

lemma binary_to_bytes_eq:
  "binary_to_bytes s = map (\<lambda>k. of_nat (int2 (take 8 (drop (8 * k) s)))) [0..<length s div 8]"
proof -
  let ?P = "\<lambda>i. length (take 8 (drop i s)) = 8"
  let ?f = "\<lambda>i. (of_nat (int2 (take 8 (drop i s))) :: byte)"
  have "binary_to_bytes s = map ?f (filter ?P (map (\<lambda>k. 8 * k) [0..<(length s + 7) div 8]))"
    unfolding binary_to_bytes_def Let_def by (simp add: foldl_cond_snoc)
  also have "filter ?P (map (\<lambda>k. 8 * k) [0..<(length s + 7) div 8])
           = map (\<lambda>k. 8 * k) (filter (\<lambda>k. k < length s div 8) [0..<(length s + 7) div 8])"
    by (auto simp: filter_map o_def intro!: arg_cong [where f = "map _"] filter_cong)
  also have "filter (\<lambda>k. k < length s div 8) [0..<(length s + 7) div 8] = [0..<length s div 8]"
  proof -
    have "length s div 8 \<le> (length s + 7) div 8" by simp
    then obtain d where d: "(length s + 7) div 8 = length s div 8 + d"
      using le_Suc_ex by blast
    have "[0..<length s div 8 + d] = [0..<length s div 8] @ [length s div 8..<length s div 8 + d]"
      by (rule upt_add_eq_append) simp
    then show ?thesis unfolding d by (simp add: filter_empty_conv)
  qed
  finally show ?thesis by (simp add: o_def)
qed

lemma spec_byte_eq: "length t = 8 \<Longrightarrow> spec_byte t = of_nat (int2 t)"
proof -
  assume "length t = 8"
  then obtain a b c d e f g h where "t = [a, b, c, d, e, f, g, h]"
    by (auto simp: length_Suc_conv eval_nat_numeral)
  then show ?thesis
    by (simp add: spec_byte_def int2_def lessThan_Suc eval_nat_numeral)
qed

lemma binary_to_bytes_spec: "binary_to_bytes s = spec_bytes s"
  unfolding binary_to_bytes_eq spec_bytes_def
  by (rule map_cong) (auto simp: spec_byte_eq)

text \<open>
  C9. For every pixel buffer and bit depth 1 to 4, \<open>_lsb_extract_secure\<close> returns the bytes
  obtained by concatenating the low bits of each sample in index order, truncating at the
  start of the first end marker (or keeping everything when there is none), and converting
  8 bits at a time, most significant bit first, without the trailing partial byte.
\<close>

theorem lsb_extract_secure_spec:
  "bits \<in> {1, 2, 3, 4} \<Longrightarrow> lsb_extract_secure img_array bits = spec_extract (flat img_array) bits"
proof -
  assume "bits \<in> {1, 2, 3, 4}"
  then have pos: "0 < bits" by auto
  have "extract_scan bits (flat img_array) [] = spec_bitstream bits (flat img_array)"
    using pos by (simp add: extract_scan_eq spec_bitstream_def sample_lsb_spec cong: map_cong)
  then show ?thesis
    by (simp add: lsb_extract_secure_def spec_extract_def Let_def cut_at_marker_spec binary_to_bytes_spec)
qed

theorem lsb_extract_secure_spec_witness:
  "(2::nat) \<in> {1, 2, 3, 4} \<and>
   lsb_extract_secure \<lparr>shape = [2, 2, 3], flat = [1, 0, 0, 1, 3, 3, 3, 3, 3, 3, 3, 2]\<rparr> 2 =
   spec_extract [1, 0, 0, 1, 3, 3, 3, 3, 3, 3, 3, 2] 2"
  using lsb_extract_secure_spec [of 2 "\<lparr>shape = [2, 2, 3], flat = [1, 0, 0, 1, 3, 3, 3, 3, 3, 3, 3, 2]\<rparr>"]
  by simp

section \<open>Evaluating the recorded library\<close>

lemma length_zero_payload: "length zero_payload = 32767"
  by (simp add: zero_payload_def)

lemma zero_payload_neq:
  "length d \<noteq> 32767 \<Longrightarrow> (d = zero_payload) = False"
  "length d \<noteq> 32767 \<Longrightarrow> (zero_payload = d) = False"
  using length_zero_payload by auto

lemmas recorded_defs =
  recorded_lib_def recorded_zlib_def recorded_sha256_def recorded_permutation_def recorded_run_def

lemma password_seed_k: "password_seed recorded_lib ''k'' = 2186593065"
  by (simp add: password_seed_def recorded_defs encode_def int_from_bytes_big_def zero_payload_neq)
lemma password_seed_empty: "password_seed recorded_lib '''' = 3820012610"
  by (simp add: password_seed_def recorded_defs encode_def int_from_bytes_big_def zero_payload_neq)

lemma replicate_16:
  "replicate 16 x = [x, x, x, x, x, x, x, x, x, x, x, x, x, x, x, x]"
  by (simp add: eval_nat_numeral)

lemma sample_envelope_bytes:
  "sample_envelope f =
     [83, 84, 69, 71, 65, 78, 79, 48, 49, 0, 0, 0, 0, 101, 83, 241, 0, 0, 0, 0, 1, 0, 0, 0, 4,
      f, 1, 0, 0, 0, 0, 0, 0, 0, 0, 0, 0, 0, 0, 0, 0, 0, 0, 65, 65, 65, 65]"
  by (simp add: sample_envelope_def stegano_magic_def encode_def replicate_16)

lemma parse_sample_envelope:
  "parse_header (sample_envelope f) =
     Inr \<lparr>magic = stegano_magic, timestamp = 1700000000, original_size = 1, processed_size = 4,
          encrypted = uint f, compressed = 1, checksum = replicate 16 0\<rparr>"
  unfolding sample_envelope_bytes
  by (simp add: parse_header_def then_e_def struct_unpack_def py_slice_def int_from_bytes_big_def
      stegano_magic_def encode_def replicate_16)

lemma decompress_sample_payload:
  "zlib_decompress recorded_lib [65, 65, 65, 65] =
     Inl (ZlibError ''Error -3 while decompressing data: incorrect header check'')"
  by (simp add: recorded_defs zero_payload_neq)

lemma decompress_sample_envelope:
  "zlib_decompress recorded_lib (sample_envelope f) =
     Inl (ZlibError ''Error -3 while decompressing data: incorrect header check'')"
  unfolding sample_envelope_bytes by (simp add: recorded_defs zero_payload_neq)

lemma process_secure_sample_envelope:
  "process_secure recorded_lib (sample_envelope 0) [] =
     Inl (ZlibError ''Error -3 while decompressing data: incorrect header check'')"
proof -
  have "length (sample_envelope 0) = 47" "py_slice (sample_envelope 0) 0 9 = stegano_magic"
    "py_slice (sample_envelope 0) 43 47 = [65, 65, 65, 65]"
    unfolding sample_envelope_bytes by (simp_all add: py_slice_def stegano_magic_def encode_def)
  then show ?thesis
    by (simp add: process_secure_def parse_sample_envelope then_e_def decompress_sample_payload)
qed

lemma int_to_bytes_big_8:
  "int_to_bytes_big 8 n =
     [of_nat (n div 72057594037927936 mod 256), of_nat (n div 281474976710656 mod 256),
      of_nat (n div 1099511627776 mod 256), of_nat (n div 4294967296 mod 256),
      of_nat (n div 16777216 mod 256), of_nat (n div 65536 mod 256), of_nat (n div 256 mod 256),
      of_nat (n mod 256)]"
  by (simp add: int_to_bytes_big_def upt_conv_Cons)

lemma int_to_bytes_big_4:
  "int_to_bytes_big 4 n =
     [of_nat (n div 16777216 mod 256), of_nat (n div 65536 mod 256), of_nat (n div 256 mod 256),
      of_nat (n mod 256)]"
  by (simp add: int_to_bytes_big_def upt_conv_Cons)

lemma int_to_bytes_big_1: "int_to_bytes_big (Suc 0) n = [of_nat (n mod 256)]"
  by (simp add: int_to_bytes_big_def)

lemmas eval_pack = prepare_data_with_security_def then_e_def
     create_secure_header_def pack_header_def struct_pack_def int_to_bytes_big_8 int_to_bytes_big_4 int_to_bytes_big_1 stegano_magic_def encode_def Let_def

lemma prepare_A: "prepare_data_with_security recorded_lib recorded_run [65] [] = Inr framed_A"
  by (simp add: eval_pack recorded_defs zero_payload_neq framed_A_def)

lemma bytes_to_binary_Cons:
  "bytes_to_binary (b # bs) = format_bin 8 (unat b) @ bytes_to_binary bs"
  by (simp add: bytes_to_binary_def)

lemma format_bin_8_byte:
  "format_bin 8 (unat (b :: byte)) =
     [bit b 7, bit b 6, bit b 5, bit b 4, bit b 3, bit b 2, bit b 1, bit b 0]"
proof -
  have "sample_lsb 8 b = spec_low_bits 8 b"
    by (rule sample_lsb_spec) simp
  moreover have "b AND (push_bit 8 1 - 1) = b"
    unfolding lsb_mask_eq by (rule take_bit_word_eq_self) simp
  ultimately show ?thesis
    by (simp add: sample_lsb_def spec_low_bits_def upt_conv_Cons eval_nat_numeral)
qed

lemma format_bin_8:
  assumes "n < 256"
  shows "format_bin 8 n =
     [odd (n div 128), odd (n div 64), odd (n div 32), odd (n div 16),
      odd (n div 8), odd (n div 4), odd (n div 2), odd n]"
proof -
  have u: "unat (of_nat n :: byte) = n"
    using assms by (simp add: unat_of_nat)
  have "bit (of_nat n :: byte) k = odd (n div 2 ^ k)" if "k < 8" for k
  proof -
    have "bit (of_nat n :: byte) k = bit n k"
      using that by (simp add: bit_simps)
    also have "\<dots> = odd (n div 2 ^ k)"
      by (rule bit_iff_odd)
    finally show ?thesis .
  qed
  then show ?thesis
    using format_bin_8_byte [of "of_nat n"] unfolding u by simp
qed

section \<open>Permuted extraction\<close>

lemma is_permutation_set: "is_permutation indices n \<Longrightarrow> set indices = {..<n}"
  unfolding is_permutation_def by (metis set_sort atLeast_upt)

lemma random_scan_result:
  "\<forall>i \<in> set indices. i < length flat_img \<Longrightarrow> length binary_data = length flat_img \<Longrightarrow>
   random_scan bits flat_img indices binary_data =
     Inr (map (\<lambda>i. if i \<in> set indices then sample_lsb bits (flat_img ! i) else binary_data ! i)
            [0..<length flat_img])"
proof (induction indices arbitrary: binary_data)
  case Nil
  have "map ((!) binary_data) [0..<length binary_data] = binary_data"
    by (rule map_nth)
  with Nil show ?case by simp
next
  case (Cons idx rest)
  let ?bd = "binary_data[idx := sample_lsb bits (flat_img ! idx)]"
  have idx: "idx < length flat_img" and rest: "\<forall>i \<in> set rest. i < length flat_img"
    using Cons.prems(1) by simp_all
  have len: "length ?bd = length flat_img"
    using Cons.prems(2) by simp
  have "random_scan bits flat_img (idx # rest) binary_data = random_scan bits flat_img rest ?bd"
    using idx by simp
  also have "\<dots> = Inr (map (\<lambda>i. if i \<in> set rest then sample_lsb bits (flat_img ! i) else ?bd ! i)
                           [0..<length flat_img])"
    using rest len by (rule Cons.IH)
  also have "map (\<lambda>i. if i \<in> set rest then sample_lsb bits (flat_img ! i) else ?bd ! i)
                 [0..<length flat_img]
           = map (\<lambda>i. if i \<in> set (idx # rest) then sample_lsb bits (flat_img ! i)
                        else binary_data ! i) [0..<length flat_img]"
  proof (rule map_cong [OF refl])
    fix i assume "i \<in> set [0..<length flat_img]"
    then have "i < length binary_data" using Cons.prems(2) by simp
    then show "(if i \<in> set rest then sample_lsb bits (flat_img ! i) else ?bd ! i) =
               (if i \<in> set (idx # rest) then sample_lsb bits (flat_img ! i) else binary_data ! i)"
      by (cases "i = idx") simp_all
  qed
  finally show ?case .
qed

lemma random_scan_permutation:
  assumes "is_permutation indices (length flat_img)"
  shows "random_scan bits flat_img indices (replicate (length flat_img) []) =
         Inr (map (sample_lsb bits) flat_img)"
proof -
  have s: "set indices = {..<length flat_img}"
    using assms by (rule is_permutation_set)
  have "random_scan bits flat_img indices (replicate (length flat_img) []) =
        Inr (map (\<lambda>i. if i \<in> set indices then sample_lsb bits (flat_img ! i)
                       else replicate (length flat_img) [] ! i) [0..<length flat_img])"
    by (rule random_scan_result) (simp_all add: s)
  also have "map (\<lambda>i. if i \<in> set indices then sample_lsb bits (flat_img ! i)
                       else replicate (length flat_img) [] ! i) [0..<length flat_img]
           = map (\<lambda>i. sample_lsb bits (flat_img ! i)) [0..<length flat_img]"
    by (rule map_cong) (simp_all add: s)
  also have "\<dots> = map (sample_lsb bits) flat_img"
    by (rule nth_equalityI) simp_all
  finally show ?thesis .
qed

lemma lsb_random_extract_eq:
  assumes "is_permutation (np_permutation L (password_seed L password) (np_size img_array))
             (np_size img_array)"
  shows "lsb_random_extract L img_array bits password = Inr (lsb_extract_secure img_array bits)"
  using assms
  by (simp add: lsb_random_extract_def lsb_extract_secure_def Let_def then_e_def np_size_def
        random_scan_permutation extract_scan_eq)

text \<open>
  C5. For every pixel buffer, bit depth and password, \<open>_lsb_random_extract\<close> returns the same
  bytes as \<open>_lsb_extract_secure\<close>: the permutation only fixes the order in which the samples
  are visited, each sample's bits are stored at the sample's own index, so the password has
  no effect on the result.
\<close>

theorem lsb_random_extract_ignores_password:
  assumes "is_permutation (np_permutation L (password_seed L password) (np_size img_array))
             (np_size img_array)"
  shows "lsb_random_extract L img_array bits password = Inr (lsb_extract_secure img_array bits)"
  using assms by (rule lsb_random_extract_eq)

theorem lsb_random_extract_ignores_password_witness:
  "is_permutation (np_permutation recorded_lib (password_seed recorded_lib ''k'')
       (np_size \<lparr>shape = [1, 1, 3], flat = [7, 8, 9]\<rparr>)) (np_size \<lparr>shape = [1, 1, 3], flat = [7, 8, 9]\<rparr>) \<and>
   lsb_random_extract recorded_lib \<lparr>shape = [1, 1, 3], flat = [7, 8, 9]\<rparr> 2 ''k'' =
     Inr (lsb_extract_secure \<lparr>shape = [1, 1, 3], flat = [7, 8, 9]\<rparr> 2)"
proof -
  have p: "is_permutation (np_permutation recorded_lib (password_seed recorded_lib ''k'')
       (np_size \<lparr>shape = [1, 1, 3], flat = [7, 8, 9]\<rparr>)) (np_size \<lparr>shape = [1, 1, 3], flat = [7, 8, 9]\<rparr>)"
    by (simp add: password_seed_k np_size_def recorded_defs is_permutation_def upt_conv_Cons)
  from p lsb_random_extract_ignores_password [OF p, of 2] show ?thesis by simp
qed

section \<open>Sequential embedding\<close>

lemma py_slice_nonempty: "di < length bd \<Longrightarrow> 0 < bits \<Longrightarrow> py_slice bd di (di + bits) \<noteq> []"
  by (simp add: py_slice_def)

lemma embed_loop_step:
  assumes "di < length bd" "0 < bits" "i < length flat_img"
  shows "embed_loop bd bits (i # rest) di flat_img =
         embed_loop bd bits rest (di + bits) (flat_img[i := embed_sample bd bits di (flat_img ! i)])"
  using assms py_slice_nonempty [of di bd bits]
  by (simp add: Let_def embed_sample_def)

lemma embed_loop_done: "length bd \<le> di \<Longrightarrow> embed_loop bd bits idxs di flat_img = Inr flat_img"
  by (cases idxs) simp_all

lemma seq_embed_done: "length bd \<le> di \<Longrightarrow> seq_embed bd bits di vs = vs"
  by (cases vs) simp_all

lemma embed_loop_upt:
  assumes "0 < bits"
  shows "a \<le> length flat_img \<Longrightarrow>
         embed_loop bd bits [a..<length flat_img] di flat_img =
           Inr (take a flat_img @ seq_embed bd bits di (drop a flat_img))"
proof (induction "length flat_img - a" arbitrary: a di flat_img)
  case 0
  then show ?case by simp
next
  case (Suc k)
  then have a: "a < length flat_img" by simp
  show ?case
  proof (cases "length bd \<le> di")
    case True
    then show ?thesis by (simp add: embed_loop_done seq_embed_done)
  next
    case False
    let ?v = "embed_sample bd bits di (flat_img ! a)"
    let ?f = "flat_img[a := ?v]"
    have up: "[a..<length flat_img] = a # [Suc a..<length ?f]"
      using a by (simp add: upt_conv_Cons)
    have "embed_loop bd bits [a..<length flat_img] di flat_img =
          embed_loop bd bits [Suc a..<length ?f] (di + bits) ?f"
      unfolding up using False assms a by (subst embed_loop_step) simp_all
    also have "\<dots> = Inr (take (Suc a) ?f @ seq_embed bd bits (di + bits) (drop (Suc a) ?f))"
      using Suc.hyps(2) a by (intro Suc.hyps(1)) simp_all
    also have "take (Suc a) ?f = take a flat_img @ [?v]"
      using a by (simp add: take_Suc_conv_app_nth)
    also have "drop (Suc a) ?f = drop (Suc a) flat_img"
      by simp
    also have "(take a flat_img @ [?v]) @ seq_embed bd bits (di + bits) (drop (Suc a) flat_img)
             = take a flat_img @ seq_embed bd bits di (drop a flat_img)"
      using False a by (simp add: Cons_nth_drop_Suc [symmetric])
    finally show ?thesis .
  qed
qed

lemma length_seq_embed: "length (seq_embed bd bits di vs) = length vs"
  by (induction vs arbitrary: di) simp_all

lemma seq_embed_frame:
  "length bd \<le> di + i * bits \<Longrightarrow> i < length vs \<Longrightarrow> seq_embed bd bits di vs ! i = vs ! i"
proof (induction vs arbitrary: di i)
  case Nil
  then show ?case by simp
next
  case (Cons v vs)
  show ?case
  proof (cases i)
    case 0
    with Cons.prems show ?thesis by simp
  next
    case (Suc j)
    with Cons.prems have "length bd \<le> (di + bits) + j * bits" "j < length vs" by simp_all
    then have "seq_embed bd bits (di + bits) vs ! j = vs ! j" by (rule Cons.IH)
    with Suc show ?thesis by simp
  qed
qed

lemma drop_bit_embed_sample:
  assumes "bits \<le> 8"
  shows "drop_bit bits (embed_sample bd bits di v) = drop_bit bits v"
proof -
  let ?c = "ljust (py_slice bd di (di + bits)) bits"
  have "length ?c \<le> bits" by (simp add: ljust_def py_slice_def)
  then have "int2 ?c < 2 ^ bits"
    using int2_less [of ?c] by (meson le_less_trans not_less power_increasing_iff one_less_numeral_iff semiring_norm(76) less_le_trans)
  then have "int2 ?c = take_bit bits (int2 ?c)"
    by (simp add: take_bit_nat_eq_self)
  then have "(of_nat (int2 ?c) :: byte) = take_bit bits (of_nat (int2 ?c))"
    by (metis take_bit_of_nat)
  moreover have "drop_bit bits (take_bit bits w) = 0" for w :: byte
    by (rule bit_eqI) (simp add: bit_simps)
  ultimately have z: "drop_bit bits (of_nat (int2 ?c) :: byte) = 0"
    by metis
  have m1: "(255 :: byte) = - 1" by simp
  have "drop_bit bits (v AND push_bit bits (drop_bit bits 255)) = drop_bit bits v"
    unfolding m1 by (rule bit_eqI) (auto simp: bit_simps dest: bit_imp_le_length)
  then show ?thesis
    by (simp add: embed_sample_def z)
qed

lemma seq_embed_high_bits:
  "bits \<le> 8 \<Longrightarrow> i < length vs \<Longrightarrow> drop_bit bits (seq_embed bd bits di vs ! i) = drop_bit bits (vs ! i)"
proof (induction vs arbitrary: di i)
  case Nil
  then show ?case by simp
next
  case (Cons v vs)
  then show ?case by (cases i) (simp_all add: drop_bit_embed_sample)
qed

lemma length_ljust_slice: "length (ljust (py_slice bd di (di + bits)) bits) = bits"
  by (simp add: ljust_def py_slice_def)

lemma take_bit_embed_sample:
  assumes "bits \<le> 8"
  shows "unat (take_bit bits (embed_sample bd bits di v)) = int2 (ljust (py_slice bd di (di + bits)) bits)"
proof -
  let ?c = "ljust (py_slice bd di (di + bits)) bits"
  have lt: "int2 ?c < 2 ^ bits"
    using int2_less [of ?c] by (simp add: length_ljust_slice)
  have "(2::nat) ^ bits \<le> 2 ^ 8"
    using assms by (intro power_increasing) simp_all
  with lt have lt8: "int2 ?c < 256" by simp
  have "take_bit bits (v AND push_bit bits (drop_bit bits 255)) = 0"
    by (rule bit_eqI) (simp add: bit_simps)
  then have "take_bit bits (embed_sample bd bits di v) = take_bit bits (of_nat (int2 ?c))"
    by (simp add: embed_sample_def take_bit_or del: take_bit_of_nat)
  also have "\<dots> = of_nat (take_bit bits (int2 ?c))"
    by (rule take_bit_of_nat)
  also have "take_bit bits (int2 ?c) = int2 ?c"
    using lt by (simp add: take_bit_nat_eq_self)
  finally show ?thesis
    using lt8 by (simp add: unat_of_nat)
qed

lemma sample_lsb_embed_sample:
  assumes "0 < bits" "bits \<le> 8"
  shows "sample_lsb bits (embed_sample bd bits di v) = ljust (py_slice bd di (di + bits)) bits"
proof -
  let ?c = "ljust (py_slice bd di (di + bits)) bits"
  have "sample_lsb bits (embed_sample bd bits di v) = format_bin (length ?c) (int2 ?c)"
    unfolding sample_lsb_def lsb_mask_eq
    using assms by (simp add: take_bit_embed_sample length_ljust_slice)
  also have "\<dots> = ?c"
    using assms by (intro format_bin_int2) (simp add: length_ljust_slice)
  finally show ?thesis .
qed

lemma ljust_slice_drop:
  "di < length bd \<Longrightarrow> \<exists>pad. ljust (py_slice bd di (di + bits)) bits @ drop (di + bits) bd = drop di bd @ pad"
proof (cases "di + bits \<le> length bd")
  case True
  then have "ljust (py_slice bd di (di + bits)) bits = take bits (drop di bd)"
    by (simp add: ljust_def py_slice_def)
  moreover have "drop (di + bits) bd = drop bits (drop di bd)"
    by (simp add: add.commute)
  ultimately have "ljust (py_slice bd di (di + bits)) bits @ drop (di + bits) bd
                 = take bits (drop di bd) @ drop bits (drop di bd)"
    by (simp only:)
  then have "ljust (py_slice bd di (di + bits)) bits @ drop (di + bits) bd = drop di bd @ []"
    by (simp only: append_take_drop_id append_Nil2)
  then show ?thesis by blast
next
  case False
  then have "ljust (py_slice bd di (di + bits)) bits @ drop (di + bits) bd
           = drop di bd @ replicate (bits - length (drop di bd)) False"
    by (simp add: ljust_def py_slice_def)
  then show ?thesis by blast
qed

lemma seq_embed_bitstream:
  assumes "0 < bits" "bits \<le> 8"
  shows "length bd - di \<le> length vs * bits \<Longrightarrow>
         \<exists>rest. concat (map (sample_lsb bits) (seq_embed bd bits di vs)) = drop di bd @ rest"
proof (induction vs arbitrary: di)
  case Nil
  then show ?case by simp
next
  case (Cons v vs)
  show ?case
  proof (cases "length bd \<le> di")
    case True
    then show ?thesis by simp
  next
    case False
    from Cons.prems have "length bd - (di + bits) \<le> length vs * bits" by simp
    then obtain rest where r: "concat (map (sample_lsb bits) (seq_embed bd bits (di + bits) vs))
                               = drop (di + bits) bd @ rest"
      using Cons.IH by blast
    from False obtain pad where p: "ljust (py_slice bd di (di + bits)) bits @ drop (di + bits) bd = drop di bd @ pad"
      using ljust_slice_drop [of di bd bits] by auto
    have "concat (map (sample_lsb bits) (seq_embed bd bits di (v # vs)))
        = ljust (py_slice bd di (di + bits)) bits @ drop (di + bits) bd @ rest"
      using False assms by (simp add: sample_lsb_embed_sample r)
    also have "\<dots> = drop di bd @ (pad @ rest)"
      using p by (metis append.assoc)
    finally show ?thesis by blast
  qed
qed

lemma length_bytes_to_binary: "length (bytes_to_binary data) = 8 * length data"
proof -
  have "length (format_bin 8 (unat (b::byte))) = 8" for b
    using unsigned_less [of b, where 'a = nat] by (intro length_format_bin) simp_all
  then show ?thesis
    unfolding bytes_to_binary_def by (induction data) simp_all
qed

lemma ceil_div_le: "0 < b \<Longrightarrow> (n + b - 1) div b \<le> i \<Longrightarrow> n \<le> i * (b::nat)"
proof -
  assume b: "0 < b" and le: "(n + b - 1) div b \<le> i"
  have "n + b - 1 < ((n + b - 1) div b + 1) * b"
    using b by (metis Suc_eq_plus1 dividend_less_div_times mult.commute add.commute mult_Suc)
  also have "\<dots> \<le> (i + 1) * b"
    using le by (intro mult_le_mono1) simp
  finally show ?thesis using b by simp
qed

text \<open>
  C8. A sequential embed of framed data that fits the capacity at bit depth 1 to 4 succeeds,
  changes no sample from index \<open>ceil((8 * len(data) + 16) / bits)\<close> on, and in every sample
  leaves the high \<open>8 - bits\<close> bits as they were.
\<close>

theorem lsb_embed_secure_frame:
  assumes "bits \<in> {1, 2, 3, 4}"
    and "8 * length data + 16 \<le> length (flat img_array) * bits"
  shows "\<exists>stego. lsb_embed_secure img_array data bits = Inr stego \<and>
           shape stego = shape img_array \<and>
           length (flat stego) = length (flat img_array) \<and>
           (\<forall>i < length (flat img_array).
              (8 * length data + 16 + bits - 1) div bits \<le> i \<longrightarrow>
                flat stego ! i = flat img_array ! i) \<and>
           (\<forall>i < length (flat img_array).
              drop_bit bits (flat stego ! i) = drop_bit bits (flat img_array ! i))"
proof -
  let ?bd = "bytes_to_binary data @ end_marker"
  let ?out = "seq_embed ?bd bits 0 (flat img_array)"
  from assms(1) have pos: "0 < bits" and le8: "bits \<le> 8" by auto
  have len: "length ?bd = 8 * length data + 16"
    by (simp add: length_bytes_to_binary length_end_marker)
  have loop: "embed_loop ?bd bits [0..<length (flat img_array)] 0 (flat img_array) = Inr ?out"
    using embed_loop_upt [OF pos, of 0 "flat img_array" ?bd 0] by simp
  have res: "lsb_embed_secure img_array data bits = Inr (img_array\<lparr>flat := ?out\<rparr>)"
    using assms(2) len loop
    by (simp add: lsb_embed_secure_def Let_def then_e_def)
  have frame: "flat (img_array\<lparr>flat := ?out\<rparr>) ! i = flat img_array ! i"
    if "i < length (flat img_array)" "(8 * length data + 16 + bits - 1) div bits \<le> i" for i
  proof -
    have "length ?bd \<le> 0 + i * bits"
      using ceil_div_le [OF pos that(2)] len by simp
    then show ?thesis using that(1) by (simp add: seq_embed_frame)
  qed
  have high: "drop_bit bits (flat (img_array\<lparr>flat := ?out\<rparr>) ! i) = drop_bit bits (flat img_array ! i)"
    if "i < length (flat img_array)" for i
    using that le8 by (simp add: seq_embed_high_bits)
  show ?thesis
    using res frame high by (intro exI [of _ "img_array\<lparr>flat := ?out\<rparr>"]) (simp add: length_seq_embed)
qed

theorem lsb_embed_secure_frame_witness:
  "(4::nat) \<in> {1, 2, 3, 4} \<and>
   8 * length [65 :: byte] + 16 \<le> length (flat \<lparr>shape = [2, 1, 4], flat = replicate 8 255\<rparr>) * 4 \<and>
   (\<exists>stego. lsb_embed_secure \<lparr>shape = [2, 1, 4], flat = replicate 8 255\<rparr> [65] 4 = Inr stego \<and>
      shape stego = [2, 1, 4] \<and> length (flat stego) = 8 \<and>
      flat stego ! 6 = 255 \<and> flat stego ! 7 = 255 \<and>
      drop_bit 4 (flat stego ! 0) = drop_bit 4 (255 :: byte))"
proof -
  let ?img = "\<lparr>shape = [2, 1, 4], flat = replicate 8 (255 :: byte)\<rparr>"
  have b: "(4::nat) \<in> {1, 2, 3, 4}" by simp
  have c: "8 * length [65 :: byte] + 16 \<le> length (flat ?img) * 4" by simp
  from lsb_embed_secure_frame [OF b c] obtain stego where
    s: "lsb_embed_secure ?img [65] 4 = Inr stego" "shape stego = shape ?img"
       "length (flat stego) = length (flat ?img)"
    and f: "\<forall>i < length (flat ?img). (8 * length [65 :: byte] + 16 + 4 - 1) div 4 \<le> i \<longrightarrow>
              flat stego ! i = flat ?img ! i"
    and h: "\<forall>i < length (flat ?img). drop_bit 4 (flat stego ! i) = drop_bit 4 (flat ?img ! i)"
    by blast
  from f have "flat stego ! 6 = 255" "flat stego ! 7 = 255" by simp_all
  moreover from h have "drop_bit 4 (flat stego ! 0) = drop_bit 4 (255 :: byte)" by simp
  ultimately show ?thesis using b c s by simp
qed

section \<open>The envelope header\<close>

lemma length_int_to_bytes_big: "length (int_to_bytes_big k n) = k"
  by (simp add: int_to_bytes_big_def)

lemma int_to_bytes_big_Suc:
  "int_to_bytes_big (Suc k) n = int_to_bytes_big k (n div 256) @ [of_nat (n mod 256)]"
proof -
  have "n div 256 ^ (k - i) = n div 256 div 256 ^ (k - Suc i)" if "i < k" for i
  proof -
    from that have "k - i = Suc (k - Suc i)" by simp
    then show ?thesis by (simp add: div_mult2_eq)
  qed
  then show ?thesis
    by (simp add: int_to_bytes_big_def)
qed

lemma int_from_bytes_big_snoc:
  "int_from_bytes_big (bs @ [b]) = 256 * int_from_bytes_big bs + unat b"
  by (simp add: int_from_bytes_big_def)

lemma int_from_to_bytes_big: "int_from_bytes_big (int_to_bytes_big k n) = n mod 256 ^ k"
proof (induction k arbitrary: n)
  case 0
  then show ?case by (simp add: int_to_bytes_big_def int_from_bytes_big_def)
next
  case (Suc k)
  have "unat (of_nat (n mod 256) :: byte) = n mod 256"
    by (simp add: unat_of_nat)
  then have "int_from_bytes_big (int_to_bytes_big (Suc k) n) = 256 * (n div 256 mod 256 ^ k) + n mod 256"
    by (simp add: int_to_bytes_big_Suc int_from_bytes_big_snoc Suc)
  also have "\<dots> = n mod 256 ^ Suc k"
    by (simp add: mod_mult2_eq)
  finally show ?case .
qed

lemma struct_pack_ok:
  "0 \<le> v \<Longrightarrow> v < 256 ^ k \<Longrightarrow> struct_pack k v = Inr (int_to_bytes_big k (nat v))"
  by (simp add: struct_pack_def)

lemma struct_unpack_packed:
  assumes "0 \<le> v" "v < 256 ^ k"
  shows "struct_unpack k (int_to_bytes_big k (nat v)) = Inr v"
proof -
  from assms have "nat v < 256 ^ k"
    by (simp add: nat_less_iff)
  then show ?thesis
    using assms by (simp add: struct_unpack_def length_int_to_bytes_big int_from_to_bytes_big)
qed

lemma header_pack_parse:
  assumes "length (magic h) = 9"
    and "0 \<le> timestamp h" "timestamp h < 2 ^ 64"
    and "0 \<le> original_size h" "original_size h < 2 ^ 32"
    and "0 \<le> processed_size h" "processed_size h < 2 ^ 32"
    and "0 \<le> encrypted h" "encrypted h < 256"
    and "0 \<le> compressed h" "compressed h < 256"
    and "length (checksum h) = 16"
  shows "\<exists>header. pack_header h = Inr header \<and> length header = 43 \<and>
           py_slice (header @ payload) 0 9 = magic h \<and>
           parse_header (header @ payload) = Inr h"
proof -
  let ?ts = "int_to_bytes_big 8 (nat (timestamp h))"
  let ?os = "int_to_bytes_big 4 (nat (original_size h))"
  let ?ps = "int_to_bytes_big 4 (nat (processed_size h))"
  let ?en = "int_to_bytes_big 1 (nat (encrypted h))"
  let ?co = "int_to_bytes_big 1 (nat (compressed h))"
  let ?header = "magic h @ ?ts @ ?os @ ?ps @ ?en @ ?co @ checksum h"
  have p: "struct_pack 8 (timestamp h) = Inr ?ts" "struct_pack 4 (original_size h) = Inr ?os"
    "struct_pack 4 (processed_size h) = Inr ?ps" "struct_pack 1 (encrypted h) = Inr ?en"
    "struct_pack 1 (compressed h) = Inr ?co"
    using assms by (simp_all add: struct_pack_ok)
  have u: "struct_unpack 8 ?ts = Inr (timestamp h)" "struct_unpack 4 ?os = Inr (original_size h)"
    "struct_unpack 4 ?ps = Inr (processed_size h)" "struct_unpack 1 ?en = Inr (encrypted h)"
    "struct_unpack 1 ?co = Inr (compressed h)"
    using assms by (simp_all add: struct_unpack_packed)
  have packed: "pack_header h = Inr ?header"
    unfolding pack_header_def p by (simp add: then_e_def)
  have len: "length ?header = 43"
    using assms(1,12) by (simp add: length_int_to_bytes_big)
  have s: "py_slice (?header @ payload) 0 9 = magic h"
    "py_slice (?header @ payload) 9 17 = ?ts"
    "py_slice (?header @ payload) 17 21 = ?os"
    "py_slice (?header @ payload) 21 25 = ?ps"
    "py_slice (?header @ payload) 25 26 = ?en"
    "py_slice (?header @ payload) 26 27 = ?co"
    "py_slice (?header @ payload) 27 43 = checksum h"
    using assms(1,12) by (simp_all add: py_slice_def length_int_to_bytes_big)
  have "parse_header (?header @ payload) = Inr h"
    unfolding parse_header_def s u by (simp add: then_e_def)
  with packed len s(1) show ?thesis by blast
qed

text \<open>
  C4. For every choice of header field values that fit the fixed layout (a 9-byte magic, an
  8-byte timestamp, two 4-byte sizes, two 1-byte flags, a 16-byte checksum), packing yields
  43 bytes, and reading the fields back at the fixed offsets, with any payload behind the
  header, reproduces every field.
\<close>

theorem header_roundtrip:
  assumes "length (magic h) = 9"
    and "0 \<le> timestamp h" "timestamp h < 2 ^ 64"
    and "0 \<le> original_size h" "original_size h < 2 ^ 32"
    and "0 \<le> processed_size h" "processed_size h < 2 ^ 32"
    and "0 \<le> encrypted h" "encrypted h < 256"
    and "0 \<le> compressed h" "compressed h < 256"
    and "length (checksum h) = 16"
  shows "\<exists>header. pack_header h = Inr header \<and> length header = 43 \<and>
           parse_header (header @ payload) = Inr h"
  using header_pack_parse [OF assms, of payload] by blast

theorem header_roundtrip_witness:
  "length (magic \<lparr>magic = stegano_magic, timestamp = 1700000000, original_size = 1,
       processed_size = 9, encrypted = 0, compressed = 1,
       checksum = take 16 (sha256 recorded_lib [65])\<rparr>) = 9 \<and>
   length (checksum \<lparr>magic = stegano_magic, timestamp = 1700000000, original_size = 1,
       processed_size = 9, encrypted = 0, compressed = 1,
       checksum = take 16 (sha256 recorded_lib [65])\<rparr>) = 16 \<and>
   (\<exists>header.
      pack_header \<lparr>magic = stegano_magic, timestamp = 1700000000, original_size = 1,
        processed_size = 9, encrypted = 0, compressed = 1,
        checksum = take 16 (sha256 recorded_lib [65])\<rparr> = Inr header \<and>
      length header = 43 \<and>
      parse_header (header @ zlib_compress recorded_lib [65]) =
        Inr \<lparr>magic = stegano_magic, timestamp = 1700000000, original_size = 1,
          processed_size = 9, encrypted = 0, compressed = 1,
          checksum = take 16 (sha256 recorded_lib [65])\<rparr>)"
proof -
  let ?h = "\<lparr>magic = stegano_magic, timestamp = 1700000000, original_size = 1,
       processed_size = 9, encrypted = 0, compressed = 1,
       checksum = take 16 (sha256 recorded_lib [65])\<rparr>"
  have m: "length (magic ?h) = 9"
    by (simp add: stegano_magic_def encode_def)
  have c: "length (checksum ?h) = 16"
    by (simp add: recorded_defs zero_payload_neq)
  have "\<exists>header. pack_header ?h = Inr header \<and> length header = 43 \<and>
          parse_header (header @ zlib_compress recorded_lib [65]) = Inr ?h"
    by (rule header_roundtrip [OF m _ _ _ _ _ _ _ _ _ _ c]) simp_all
  with m c show ?thesis by blast
qed

section \<open>Unpacking\<close>

text \<open>From 32 bytes on, every header field read finds a buffer of the right size.\<close>

lemma parse_header_ok:
  assumes "32 \<le> length extracted_bytes"
  shows "\<exists>h. parse_header extracted_bytes = Inr h"
proof -
  have "length (py_slice extracted_bytes 9 17) = 8" "length (py_slice extracted_bytes 17 21) = 4"
    "length (py_slice extracted_bytes 21 25) = 4" "length (py_slice extracted_bytes 25 26) = 1"
    "length (py_slice extracted_bytes 26 27) = 1"
    using assms by (simp_all add: py_slice_def)
  then show ?thesis
    unfolding parse_header_def struct_unpack_def then_e_def by simp
qed

text \<open>
  C3. \<open>_process_extracted_data\<close> returns a result for every byte string and password. When
  the parse, decrypt, decompress chain fails, the untouched extracted bytes are decompressed
  instead; when that fails too, the extracted bytes come back as they are, with
  \<open>success = False\<close> and the message of the first failure.
\<close>

theorem process_extracted_data_never_raises:
  "\<exists>data info. process_extracted_data L extracted_bytes password = Inr (data, info) \<and>
     (\<forall>e. process_secure L extracted_bytes password = Inl e \<longrightarrow>
        (case zlib_decompress L extracted_bytes of
           Inr decompressed \<Rightarrow>
             data = decompressed \<and>
             info = [''legacy_mode'' \<mapsto> PyBool True, ''success'' \<mapsto> PyBool True]
         | Inl e' \<Rightarrow>
             data = extracted_bytes \<and>
             info = [''success'' \<mapsto> PyBool False, ''error'' \<mapsto> PyStr (error_str e)]))"
proof (cases "process_secure L extracted_bytes password")
  case (Inl e)
  then show ?thesis
    by (cases "zlib_decompress L extracted_bytes") (simp_all add: process_extracted_data_def)
next
  case (Inr result)
  then show ?thesis
    by (cases result) (simp add: process_extracted_data_def)
qed

theorem process_extracted_data_never_raises_witness:
  "process_secure recorded_lib (sample_envelope 0) [] =
     Inl (ZlibError ''Error -3 while decompressing data: incorrect header check'') \<and>
   process_extracted_data recorded_lib (sample_envelope 0) [] =
     Inr (sample_envelope 0,
          [''success'' \<mapsto> PyBool False,
           ''error'' \<mapsto> PyStr ''Error -3 while decompressing data: incorrect header check''])"
proof -
  obtain data info where
    r: "process_extracted_data recorded_lib (sample_envelope 0) [] = Inr (data, info)"
    and f: "\<forall>e. process_secure recorded_lib (sample_envelope 0) [] = Inl e \<longrightarrow>
        (case zlib_decompress recorded_lib (sample_envelope 0) of
           Inr decompressed \<Rightarrow>
             data = decompressed \<and>
             info = [''legacy_mode'' \<mapsto> PyBool True, ''success'' \<mapsto> PyBool True]
         | Inl e' \<Rightarrow>
             data = sample_envelope 0 \<and>
             info = [''success'' \<mapsto> PyBool False, ''error'' \<mapsto> PyStr (error_str e)])"
    using process_extracted_data_never_raises [of recorded_lib "sample_envelope 0" "[]"] by blast
  from f process_secure_sample_envelope
  have "data = sample_envelope 0 \<and>
        info = [''success'' \<mapsto> PyBool False,
                ''error'' \<mapsto> PyStr ''Error -3 while decompressing data: incorrect header check'']"
    by (simp add: decompress_sample_envelope)
  with r process_secure_sample_envelope show ?thesis by simp
qed

text \<open>
  C10. For an envelope whose header carries the encrypted flag, unpacking with the empty
  password does not call the cipher: the payload slice goes to the decompressor still
  encrypted, and the call returns a result instead of refusing.
\<close>

theorem empty_password_skips_decryption:
  assumes "32 \<le> length extracted_bytes"
    and "py_slice extracted_bytes 0 9 = stegano_magic"
    and "parse_header extracted_bytes = Inr h"
    and "encrypted h = 1"
  shows "process_secure L extracted_bytes [] =
           then_e (if compressed h \<noteq> 0
                   then zlib_decompress L (py_slice extracted_bytes 43 (43 + nat (processed_size h)))
                   else Inr (py_slice extracted_bytes 43 (43 + nat (processed_size h))))
             (\<lambda>data_part.
                Inr (data_part,
                     [''success'' \<mapsto> PyBool True,
                      ''timestamp'' \<mapsto> PyInt (timestamp h),
                      ''original_size'' \<mapsto> PyInt (original_size h),
                      ''encrypted'' \<mapsto> PyBool True,
                      ''compressed'' \<mapsto> PyBool (compressed h \<noteq> 0),
                      ''integrity_verified'' \<mapsto> PyBool (checksum h = take 16 (sha256 L data_part)),
                      ''extraction_method'' \<mapsto> PyStr ''secure'']))
         \<and> (\<exists>result. process_extracted_data L extracted_bytes [] = Inr result)"
proof -
  have "\<exists>result. process_extracted_data L extracted_bytes [] = Inr result"
    unfolding process_extracted_data_def by (auto split: sum.splits)
  moreover have "process_secure L extracted_bytes [] =
           then_e (if compressed h \<noteq> 0
                   then zlib_decompress L (py_slice extracted_bytes 43 (43 + nat (processed_size h)))
                   else Inr (py_slice extracted_bytes 43 (43 + nat (processed_size h))))
             (\<lambda>data_part.
                Inr (data_part,
                     [''success'' \<mapsto> PyBool True,
                      ''timestamp'' \<mapsto> PyInt (timestamp h),
                      ''original_size'' \<mapsto> PyInt (original_size h),
                      ''encrypted'' \<mapsto> PyBool True,
                      ''compressed'' \<mapsto> PyBool (compressed h \<noteq> 0),
                      ''integrity_verified'' \<mapsto> PyBool (checksum h = take 16 (sha256 L data_part)),
                      ''extraction_method'' \<mapsto> PyStr ''secure'']))"
    using assms by (simp add: process_secure_def then_e_def Let_def split: sum.splits)
  ultimately show ?thesis by blast
qed

theorem empty_password_skips_decryption_witness:
  "32 \<le> length (sample_envelope 1) \<and>
   py_slice (sample_envelope 1) 0 9 = stegano_magic \<and>
   parse_header (sample_envelope 1) =
     Inr \<lparr>magic = stegano_magic, timestamp = 1700000000, original_size = 1, processed_size = 4,
          encrypted = 1, compressed = 1, checksum = replicate 16 0\<rparr> \<and>
   process_secure recorded_lib (sample_envelope 1) [] =
     Inl (ZlibError ''Error -3 while decompressing data: incorrect header check'') \<and>
   (\<exists>result. process_extracted_data recorded_lib (sample_envelope 1) [] = Inr result)"
proof -
  let ?h = "\<lparr>magic = stegano_magic, timestamp = 1700000000, original_size = 1, processed_size = 4,
          encrypted = 1, compressed = 1, checksum = replicate 16 0\<rparr>"
  have a: "32 \<le> length (sample_envelope 1)"
    and b: "py_slice (sample_envelope 1) 0 9 = stegano_magic"
    and s: "py_slice (sample_envelope 1) 43 47 = [65, 65, 65, 65]"
    unfolding sample_envelope_bytes by (simp_all add: py_slice_def stegano_magic_def encode_def)
  have c: "parse_header (sample_envelope 1) = Inr ?h"
    by (simp add: parse_sample_envelope)
  have d: "encrypted ?h = 1" by simp
  from empty_password_skips_decryption [OF a b c d, of recorded_lib] a b c s
  show ?thesis
    by (simp add: then_e_def decompress_sample_payload)
qed

section \<open>Capacity analysis\<close>

text \<open>
  C7, as the code has it. For every array of at least two dimensions, \<open>analyze_capacity\<close>
  reports for each bit depth \<open>b\<close> from 1 to 4 the capacity \<open>floor((size * b - 256) / 8)\<close> bytes,
  and advises 1-2 bits when height times width exceeds 1,000,000 and 2-4 bits otherwise. The
  threshold is on the pixel count; the channels do not enter.
\<close>

theorem analyze_capacity_report:
  assumes "2 \<le> length (shape img_array)"
  shows "\<exists>report. analyze_capacity img_array = Inr report \<and>
           (\<forall>b \<in> {1, 2, 3, 4}.
              map_of (capacity_analysis report) b =
                Some \<lparr>capacity_bytes = (int (np_size img_array) * int b - 256) div 8,
                      bits_used = b\<rparr>) \<and>
           security_recommendations report =
             [if 1000000 < shape img_array ! 0 * shape img_array ! 1
              then ''Use 1-2 bit LSB for better stealth in large images''
              else ''Use 2-4 bit LSB for optimal capacity in small images'']"
  using assms by (simp add: analyze_capacity_def Let_def)

theorem analyze_capacity_report_witness:
  "2 \<le> length (shape \<lparr>shape = [2, 2, 3], flat = replicate 12 0\<rparr>) \<and>
   (\<exists>report. analyze_capacity \<lparr>shape = [2, 2, 3], flat = replicate 12 0\<rparr> = Inr report \<and>
      map_of (capacity_analysis report) 1 = Some \<lparr>capacity_bytes = - 31, bits_used = 1\<rparr> \<and>
      map_of (capacity_analysis report) 4 = Some \<lparr>capacity_bytes = - 26, bits_used = 4\<rparr> \<and>
      security_recommendations report =
        [''Use 2-4 bit LSB for optimal capacity in small images''])"
proof -
  let ?img = "\<lparr>shape = [2, 2, 3], flat = replicate 12 (0 :: byte)\<rparr>"
  have a: "2 \<le> length (shape ?img)" by simp
  from analyze_capacity_report [OF a] obtain report where
    r: "analyze_capacity ?img = Inr report"
    and c: "\<forall>b \<in> {1, 2, 3, 4}. map_of (capacity_analysis report) b =
              Some \<lparr>capacity_bytes = (int (np_size ?img) * int b - 256) div 8, bits_used = b\<rparr>"
    and s: "security_recommendations report =
             [if 1000000 < shape ?img ! 0 * shape ?img ! 1
              then ''Use 1-2 bit LSB for better stealth in large images''
              else ''Use 2-4 bit LSB for optimal capacity in small images'']"
    by blast
  from c have "map_of (capacity_analysis report) 1 = Some \<lparr>capacity_bytes = - 31, bits_used = 1\<rparr>"
    "map_of (capacity_analysis report) 4 = Some \<lparr>capacity_bytes = - 26, bits_used = 4\<rparr>"
    by (simp_all add: np_size_def)
  with a r s show ?thesis by simp
qed

text \<open>
  An RGB image of 600 by 600 pixels has 1,080,000 samples, more than 1,000,000, and is
  advised 2-4 bits.
\<close>

theorem analyze_capacity_advisory_counterexample:
  "wf_ndarray \<lparr>shape = [600, 600, 3], flat = replicate 1080000 0\<rparr> \<and>
   1000000 < np_size \<lparr>shape = [600, 600, 3], flat = replicate 1080000 0\<rparr> \<and>
   map_sum id security_recommendations
     (analyze_capacity \<lparr>shape = [600, 600, 3], flat = replicate 1080000 0\<rparr>) =
     Inr [''Use 2-4 bit LSB for optimal capacity in small images'']"
  by (simp add: analyze_capacity_def Let_def wf_ndarray_def np_size_def)

section \<open>The capacity guard\<close>

text \<open>The sequential embedder refuses a payload that does not fit, before it writes.\<close>

lemma lsb_embed_secure_capacity_guard:
  "length (flat img_array) * bits < 8 * length data + 16 \<Longrightarrow>
   lsb_embed_secure img_array data bits = Inl (ValueError ''Insufficient capacity'')"
  by (simp add: lsb_embed_secure_def Let_def length_bytes_to_binary length_end_marker)

text \<open>The permuted embedder has no such check: it never raises a \<open>ValueError\<close>.\<close>

lemma embed_loop_no_value_error: "embed_loop bd bits idxs di flat_img \<noteq> Inl (ValueError m)"
  by (induction bd bits idxs di flat_img rule: embed_loop.induct) (simp_all add: Let_def)

lemma lsb_random_embed_no_value_error:
  "lsb_random_embed L img_array data bits password \<noteq> Inl (ValueError m)"
proof -
  have "then_e (embed_loop bd bits idxs 0 fl) (\<lambda>f. Inr (img_array\<lparr>flat := f\<rparr>)) \<noteq> Inl (ValueError m)"
    for bd idxs fl
    using embed_loop_no_value_error [of bd bits idxs 0 fl m]
    by (cases "embed_loop bd bits idxs 0 fl") (simp_all add: then_e_def)
  then show ?thesis
    by (simp add: lsb_random_embed_def Let_def)
qed

text \<open>On a 2 by 2 RGB carrier (12 samples, 12 bits at depth 1) the envelope of \<open>b'A'\<close> needs
  432 bits. The permuted embedder writes the first 12 bits of the magic into the samples, in
  the order \<open>11, 4, 5, 9, 6, 7, 10, 2, 1, 8, 0, 3\<close>, and returns.\<close>

lemma random_embed_A:
  "lsb_random_embed recorded_lib \<lparr>shape = [2, 2, 3], flat = replicate 12 200\<rparr> framed_A 1 [] =
     Inr \<lparr>shape = [2, 2, 3], flat = [200, 200, 201, 201, 201, 200, 200, 200, 201, 201, 201, 200]\<rparr>"
proof -
  define tail where "tail = bytes_to_binary (drop 2 framed_A) @ end_marker"
  have len: "length tail = 416"
    by (simp add: tail_def length_bytes_to_binary length_end_marker framed_A_def)
  have bd: "bytes_to_binary framed_A @ end_marker =
      [False, True, False, True, False, False, True, True,
       False, True, False, True, False, True, False, False] @ tail"
    by (simp add: tail_def framed_A_def bytes_to_binary_Cons format_bin_8)
  have perm: "np_permutation recorded_lib (password_seed recorded_lib []) 12 =
      [11, 4, 5, 9, 6, 7, 10, 2, 1, 8, 0, 3]"
    unfolding password_seed_empty by (simp add: recorded_defs)
  have fl: "replicate 12 (200 :: byte) = [200, 200, 200, 200, 200, 200, 200, 200, 200, 200, 200, 200]"
    by (simp add: eval_nat_numeral)
  show ?thesis
    unfolding lsb_random_embed_def Let_def
    apply (simp only: ndarray.simps length_replicate perm bd)
    apply (simp add: fl len then_e_def embed_loop_step embed_sample_def py_slice_def
        ljust_def int2_def del: embed_loop.simps(2))
    done
qed

text \<open>
  C2. A payload whose bits exceed the capacity makes the sequential embed raise the capacity
  error; the permuted embed of the same input raises nothing and returns a changed buffer.
\<close>

theorem permuted_embed_lacks_capacity_guard:
  "embed_data_secure recorded_lib recorded_run
     \<lparr>shape = [2, 2, 3], flat = replicate 12 200\<rparr> [65] [] 1 ''LSB_RANDOM'' =
     Inr \<lparr>shape = [2, 2, 3],
          flat = [200, 200, 201, 201, 201, 200, 200, 200, 201, 201, 201, 200]\<rparr> \<and>
   embed_data_secure recorded_lib recorded_run
     \<lparr>shape = [2, 2, 3], flat = replicate 12 200\<rparr> [65] [] 1 ''LSB'' =
     Inl (ValueError ''Insufficient capacity'')"
proof -
  have v: "validate_inputs [65] 1 = Inr ()"
    by (simp add: validate_inputs_def)
  have "length (flat \<lparr>shape = [2, 2, 3], flat = replicate 12 (200 :: byte)\<rparr>) * 1
          < 8 * length framed_A + 16"
    by (simp add: framed_A_def)
  then have "lsb_embed_secure \<lparr>shape = [2, 2, 3], flat = replicate 12 200\<rparr> framed_A 1 =
      Inl (ValueError ''Insufficient capacity'')"
    by (rule lsb_embed_secure_capacity_guard)
  with random_embed_A show ?thesis
    unfolding embed_data_secure_def v prepare_A then_e_def by simp
qed

section \<open>Determinism of the permuted embed\<close>

text \<open>The envelope of \<open>b'A'\<close> under the password \<open>'k'\<close>, for a clock reading \<open>1700000000 + t\<close>.\<close>

lemma replicate_12: "replicate 12 x = [x, x, x, x, x, x, x, x, x, x, x, x]"
  by (simp add: eval_nat_numeral)

lemma replicate_36:
  "replicate 36 x = [x, x, x, x, x, x, x, x, x, x, x, x, x, x, x, x, x, x,
                     x, x, x, x, x, x, x, x, x, x, x, x, x, x, x, x, x, x]"
  by (simp add: eval_nat_numeral)

lemma prepare_k:
  "prepare_data_with_security recorded_lib (recorded_run\<lparr>time_now := 1700000000 + t\<rparr>) [65] ''k'' =
     (if 0 \<le> 1700000000 + t \<and> 1700000000 + t < 2 ^ 64
      then Inr (stegano_magic @ int_to_bytes_big 8 (nat (1700000000 + t)) @
             [0, 0, 0, 1, 0, 0, 0, 37, 1, 1,
              85, 154, 234, 208, 130, 100, 213, 121, 93, 57, 9, 113, 140, 221, 5, 171] @
             replicate 12 0 @ replicate 16 0 @ [120, 218, 115, 4, 0, 0, 66, 0, 66])
      else Inl (StructError ''argument out of range''))"
  by (simp add: prepare_data_with_security_def then_e_def create_secure_header_def pack_header_def
      struct_pack_def int_to_bytes_big_4 int_to_bytes_big_1 Let_def crypto_manager_def encrypt_def
      derive_key_def recorded_defs zero_payload_neq replicate_12 replicate_16)

lemma random_embed_k_0:
  "lsb_random_embed recorded_lib \<lparr>shape = [4, 3, 3], flat = replicate 36 200\<rparr>
      (stegano_magic @ [0, 0, 0, 0, 101, 83, 241, 0] @
       [0, 0, 0, 1, 0, 0, 0, 37, 1, 1,
        85, 154, 234, 208, 130, 100, 213, 121, 93, 57, 9, 113, 140, 221, 5, 171] @
       replicate 12 0 @ replicate 16 0 @ [120, 218, 115, 4, 0, 0, 66, 0, 66]) 4 ''k'' =
     Inr \<lparr>shape = [4, 3, 3],
          flat = [193, 195, 192, 196, 196, 196, 207, 207, 192, 192, 206, 195, 196, 193, 197, 198,
                  192, 197, 195, 192, 195, 197, 192, 192, 192, 196, 197, 192, 192, 197, 192,
                  192, 192, 193, 199, 196]\<rparr>"
proof -
  define rest :: bytes where "rest = [0, 0, 1, 0, 0, 0, 37, 1, 1,
        85, 154, 234, 208, 130, 100, 213, 121, 93, 57, 9, 113, 140, 221, 5, 171] @
       replicate 12 0 @ replicate 16 0 @ [120, 218, 115, 4, 0, 0, 66, 0, 66]"
  define tail where "tail = bytes_to_binary rest @ end_marker"
  have len: "length tail = 512"
    by (simp add: tail_def rest_def length_bytes_to_binary length_end_marker)
  have fr: "stegano_magic @ [0, 0, 0, 0, 101, 83, 241, 0] @
       [0, 0, 0, 1, 0, 0, 0, 37, 1, 1,
        85, 154, 234, 208, 130, 100, 213, 121, 93, 57, 9, 113, 140, 221, 5, 171] @
       replicate 12 0 @ replicate 16 0 @ [120, 218, 115, 4, 0, 0, 66, 0, 66]
     = [83, 84, 69, 71, 65, 78, 79, 48, 49, 0, 0, 0, 0, 101, 83, 241, 0, 0] @ rest"
    by (simp add: rest_def stegano_magic_def encode_def)
  have app: "bytes_to_binary (xs @ ys) = bytes_to_binary xs @ bytes_to_binary ys" for xs ys
    by (simp add: bytes_to_binary_def)
  have bd: "bytes_to_binary ([83, 84, 69, 71, 65, 78, 79, 48, 49, 0, 0, 0, 0, 101, 83, 241, 0, 0] @ rest)
        @ end_marker =
      [False, True, False, True, False, False, True, True,
       False, True, False, True, False, True, False, False,
       False, True, False, False, False, True, False, True,
       False, True, False, False, False, True, True, True,
       False, True, False, False, False, False, False, True,
       False, True, False, False, True, True, True, False,
       False, True, False, False, True, True, True, True,
       False, False, True, True, False, False, False, False,
       False, False, True, True, False, False, False, True,
       False, False, False, False, False, False, False, False,
       False, False, False, False, False, False, False, False,
       False, False, False, False, False, False, False, False,
       False, False, False, False, False, False, False, False,
       False, True, True, False, False, True, False, True,
       False, True, False, True, False, False, True, True,
       True, True, True, True, False, False, False, True,
       False, False, False, False, False, False, False, False,
       False, False, False, False, False, False, False, False] @ tail"
    unfolding app by (simp add: tail_def bytes_to_binary_Cons format_bin_8) (simp add: bytes_to_binary_def)
  have perm: "np_permutation recorded_lib (password_seed recorded_lib ''k'') 36 =
      [17, 20, 21, 4, 3, 29, 25, 34, 5, 0, 35, 10, 12, 6, 1, 27, 11, 33, 31, 28, 2, 22, 9,
        23, 19, 32, 15, 26, 14, 18, 7, 13, 8, 16, 24, 30]"
    unfolding password_seed_k by (simp add: recorded_defs)
  show ?thesis
    unfolding lsb_random_embed_def Let_def fr
    apply (simp only: ndarray.simps length_replicate perm bd)
    apply (simp add: replicate_36 len then_e_def embed_loop_step embed_sample_def py_slice_def
        ljust_def int2_def del: embed_loop.simps(2))
    done
qed

lemma random_embed_k_1:
  "lsb_random_embed recorded_lib \<lparr>shape = [4, 3, 3], flat = replicate 36 200\<rparr>
      (stegano_magic @ [0, 0, 0, 0, 101, 83, 241, 1] @
       [0, 0, 0, 1, 0, 0, 0, 37, 1, 1,
        85, 154, 234, 208, 130, 100, 213, 121, 93, 57, 9, 113, 140, 221, 5, 171] @
       replicate 12 0 @ replicate 16 0 @ [120, 218, 115, 4, 0, 0, 66, 0, 66]) 4 ''k'' =
     Inr \<lparr>shape = [4, 3, 3],
          flat = [193, 195, 192, 196, 196, 196, 207, 207, 192, 192, 206, 195, 196, 193, 197, 198,
                  193, 197, 195, 192, 195, 197, 192, 192, 192, 196, 197, 192, 192, 197, 192,
                  192, 192, 193, 199, 196]\<rparr>"
proof -
  define rest :: bytes where "rest = [0, 0, 1, 0, 0, 0, 37, 1, 1,
        85, 154, 234, 208, 130, 100, 213, 121, 93, 57, 9, 113, 140, 221, 5, 171] @
       replicate 12 0 @ replicate 16 0 @ [120, 218, 115, 4, 0, 0, 66, 0, 66]"
  define tail where "tail = bytes_to_binary rest @ end_marker"
  have len: "length tail = 512"
    by (simp add: tail_def rest_def length_bytes_to_binary length_end_marker)
  have fr: "stegano_magic @ [0, 0, 0, 0, 101, 83, 241, 1] @
       [0, 0, 0, 1, 0, 0, 0, 37, 1, 1,
        85, 154, 234, 208, 130, 100, 213, 121, 93, 57, 9, 113, 140, 221, 5, 171] @
       replicate 12 0 @ replicate 16 0 @ [120, 218, 115, 4, 0, 0, 66, 0, 66]
     = [83, 84, 69, 71, 65, 78, 79, 48, 49, 0, 0, 0, 0, 101, 83, 241, 1, 0] @ rest"
    by (simp add: rest_def stegano_magic_def encode_def)
  have app: "bytes_to_binary (xs @ ys) = bytes_to_binary xs @ bytes_to_binary ys" for xs ys
    by (simp add: bytes_to_binary_def)
  have bd: "bytes_to_binary ([83, 84, 69, 71, 65, 78, 79, 48, 49, 0, 0, 0, 0, 101, 83, 241, 1, 0] @ rest)
        @ end_marker =
      [False, True, False, True, False, False, True, True,
       False, True, False, True, False, True, False, False,
       False, True, False, False, False, True, False, True,
       False, True, False, False, False, True, True, True,
       False, True, False, False, False, False, False, True,
       False, True, False, False, True, True, True, False,
       False, True, False, False, True, True, True, True,
       False, False, True, True, False, False, False, False,
       False, False, True, True, False, False, False, True,
       False, False, False, False, False, False, False, False,
       False, False, False, False, False, False, False, False,
       False, False, False, False, False, False, False, False,
       False, False, False, False, False, False, False, False,
       False, True, True, False, False, True, False, True,
       False, True, False, True, False, False, True, True,
       True, True, True, True, False, False, False, True,
       False, False, False, False, False, False, False, True,
       False, False, False, False, False, False, False, False] @ tail"
    unfolding app by (simp add: tail_def bytes_to_binary_Cons format_bin_8) (simp add: bytes_to_binary_def)
  have perm: "np_permutation recorded_lib (password_seed recorded_lib ''k'') 36 =
      [17, 20, 21, 4, 3, 29, 25, 34, 5, 0, 35, 10, 12, 6, 1, 27, 11, 33, 31, 28, 2, 22, 9,
        23, 19, 32, 15, 26, 14, 18, 7, 13, 8, 16, 24, 30]"
    unfolding password_seed_k by (simp add: recorded_defs)
  show ?thesis
    unfolding lsb_random_embed_def Let_def fr
    apply (simp only: ndarray.simps length_replicate perm bd)
    apply (simp add: replicate_36 len then_e_def embed_loop_step embed_sample_def py_slice_def
        ljust_def int2_def del: embed_loop.simps(2))
    done
qed

text \<open>A run enters the packed bytes only through the clock reading and, when a password is
  given, the 12 nonce bytes.\<close>

lemma prepare_run_eq:
  assumes "time_now R1 = time_now R2"
    and "password \<noteq> [] \<longrightarrow> get_random_bytes R1 12 = get_random_bytes R2 12"
  shows "prepare_data_with_security L R1 data password = prepare_data_with_security L R2 data password"
proof (cases "password = []")
  case True
  with assms(1) show ?thesis
    by (simp add: prepare_data_with_security_def create_secure_header_def)
next
  case False
  with assms have "encrypt L R1 (zlib_compress L data) password = encrypt L R2 (zlib_compress L data) password"
    by (simp add: encrypt_def)
  with assms(1) False show ?thesis
    by (simp add: prepare_data_with_security_def create_secure_header_def)
qed

text \<open>
  C6, as the code has it. For every payload, carrier, bit depth and password, two runs of the
  permuted embed that read the same clock second and, when the password is not empty, draw
  the same 12-byte nonce return the same result.
\<close>

theorem permuted_embed_deterministic:
  assumes "time_now R1 = time_now R2"
    and "password \<noteq> [] \<longrightarrow> get_random_bytes R1 12 = get_random_bytes R2 12"
  shows "embed_data_secure L R1 img_array data password bits ''LSB_RANDOM'' =
         embed_data_secure L R2 img_array data password bits ''LSB_RANDOM''"
  using prepare_run_eq [OF assms] by (simp add: embed_data_secure_def)

theorem permuted_embed_deterministic_witness:
  "time_now recorded_run =
     time_now \<lparr>time_now = 1700000000,
               get_random_bytes = (\<lambda>n. if n = 12 then replicate 12 0 else replicate n 255)\<rparr> \<and>
   get_random_bytes recorded_run 12 =
     get_random_bytes \<lparr>time_now = 1700000000,
               get_random_bytes = (\<lambda>n. if n = 12 then replicate 12 0 else replicate n 255)\<rparr> 12 \<and>
   embed_data_secure recorded_lib recorded_run
     \<lparr>shape = [4, 3, 3], flat = replicate 36 200\<rparr> [65] ''k'' 4 ''LSB_RANDOM'' =
   embed_data_secure recorded_lib
     \<lparr>time_now = 1700000000,
      get_random_bytes = (\<lambda>n. if n = 12 then replicate 12 0 else replicate n 255)\<rparr>
     \<lparr>shape = [4, 3, 3], flat = replicate 36 200\<rparr> [65] ''k'' 4 ''LSB_RANDOM''"
proof -
  let ?R = "\<lparr>time_now = 1700000000,
             get_random_bytes = (\<lambda>n. if n = 12 then replicate 12 (0 :: byte) else replicate n 255)\<rparr>"
  have a: "time_now recorded_run = time_now ?R"
    by (simp add: recorded_run_def)
  have b: "get_random_bytes recorded_run 12 = get_random_bytes ?R 12"
    by (simp add: recorded_run_def)
  then have c: "''k'' \<noteq> [] \<longrightarrow> get_random_bytes recorded_run 12 = get_random_bytes ?R 12"
    by simp
  from a b permuted_embed_deterministic [OF a c] show ?thesis by simp
qed

text \<open>
  Two runs on the same input with the password \<open>'k'\<close>, one second apart: the timestamp in the
  header differs in its last bit, and so does sample 16 of the result.
\<close>

theorem permuted_embed_depends_on_clock:
  "embed_data_secure recorded_lib recorded_run
     \<lparr>shape = [4, 3, 3], flat = replicate 36 200\<rparr> [65] ''k'' 4 ''LSB_RANDOM'' =
     Inr \<lparr>shape = [4, 3, 3],
          flat = [193, 195, 192, 196, 196, 196, 207, 207, 192, 192, 206, 195, 196, 193, 197, 198,
                  192, 197, 195, 192, 195, 197, 192, 192, 192, 196, 197, 192, 192, 197, 192,
                  192, 192, 193, 199, 196]\<rparr> \<and>
   embed_data_secure recorded_lib (recorded_run\<lparr>time_now := 1700000001\<rparr>)
     \<lparr>shape = [4, 3, 3], flat = replicate 36 200\<rparr> [65] ''k'' 4 ''LSB_RANDOM'' =
     Inr \<lparr>shape = [4, 3, 3],
          flat = [193, 195, 192, 196, 196, 196, 207, 207, 192, 192, 206, 195, 196, 193, 197, 198,
                  193, 197, 195, 192, 195, 197, 192, 192, 192, 196, 197, 192, 192, 197, 192,
                  192, 192, 193, 199, 196]\<rparr> \<and>
   embed_data_secure recorded_lib recorded_run
     \<lparr>shape = [4, 3, 3], flat = replicate 36 200\<rparr> [65] ''k'' 4 ''LSB_RANDOM'' \<noteq>
   embed_data_secure recorded_lib (recorded_run\<lparr>time_now := 1700000001\<rparr>)
     \<lparr>shape = [4, 3, 3], flat = replicate 36 200\<rparr> [65] ''k'' 4 ''LSB_RANDOM''"
proof -
  have v: "validate_inputs [65] 4 = Inr ()"
    by (simp add: validate_inputs_def)
  have r: "recorded_run = recorded_run\<lparr>time_now := 1700000000 + 0\<rparr>"
    by (simp add: recorded_run_def)
  have p0: "prepare_data_with_security recorded_lib recorded_run [65] ''k'' =
      Inr (stegano_magic @ [0, 0, 0, 0, 101, 83, 241, 0] @
             [0, 0, 0, 1, 0, 0, 0, 37, 1, 1,
              85, 154, 234, 208, 130, 100, 213, 121, 93, 57, 9, 113, 140, 221, 5, 171] @
             replicate 12 0 @ replicate 16 0 @ [120, 218, 115, 4, 0, 0, 66, 0, 66])"
    by (subst r, subst prepare_k) (simp add: int_to_bytes_big_8)
  have p1: "prepare_data_with_security recorded_lib (recorded_run\<lparr>time_now := 1700000001\<rparr>) [65] ''k'' =
      Inr (stegano_magic @ [0, 0, 0, 0, 101, 83, 241, 1] @
             [0, 0, 0, 1, 0, 0, 0, 37, 1, 1,
              85, 154, 234, 208, 130, 100, 213, 121, 93, 57, 9, 113, 140, 221, 5, 171] @
             replicate 12 0 @ replicate 16 0 @ [120, 218, 115, 4, 0, 0, 66, 0, 66])"
    using prepare_k [of 1] by (simp add: int_to_bytes_big_8)
  have e0: "embed_data_secure recorded_lib recorded_run
     \<lparr>shape = [4, 3, 3], flat = replicate 36 200\<rparr> [65] ''k'' 4 ''LSB_RANDOM'' =
     Inr \<lparr>shape = [4, 3, 3],
          flat = [193, 195, 192, 196, 196, 196, 207, 207, 192, 192, 206, 195, 196, 193, 197, 198,
                  192, 197, 195, 192, 195, 197, 192, 192, 192, 196, 197, 192, 192, 197, 192,
                  192, 192, 193, 199, 196]\<rparr>"
    unfolding embed_data_secure_def v p0 then_e_def using random_embed_k_0 by simp
  have e1: "embed_data_secure recorded_lib (recorded_run\<lparr>time_now := 1700000001\<rparr>)
     \<lparr>shape = [4, 3, 3], flat = replicate 36 200\<rparr> [65] ''k'' 4 ''LSB_RANDOM'' =
     Inr \<lparr>shape = [4, 3, 3],
          flat = [193, 195, 192, 196, 196, 196, 207, 207, 192, 192, 206, 195, 196, 193, 197, 198,
                  193, 197, 195, 192, 195, 197, 192, 192, 192, 196, 197, 192, 192, 197, 192,
                  192, 192, 193, 199, 196]\<rparr>"
    unfolding embed_data_secure_def v p1 then_e_def using random_embed_k_1 by simp
  show ?thesis
    unfolding e0 e1 by simp
qed

section \<open>Round trip\<close>

text \<open>The first occurrence of a pattern in a string stays the first when the string grows.\<close>

lemma str_find_bound: "str_find m s = Some k \<Longrightarrow> k + length m \<le> length s"
proof (induction s arbitrary: k)
  case Nil
  then show ?case by (simp split: if_splits)
next
  case (Cons c s)
  show ?case
  proof (cases "prefix m (c # s)")
    case True
    with Cons.prems have "k = 0" by simp
    with prefix_length_le [OF True] show ?thesis by simp
  next
    case False
    with Cons.prems obtain j where j: "str_find m s = Some j" "k = Suc j" by auto
    from Cons.IH [OF j(1)] j(2) show ?thesis by simp
  qed
qed

lemma str_find_append: "str_find m s = Some k \<Longrightarrow> str_find m (s @ t) = Some k"
proof (induction s arbitrary: k)
  case Nil
  then show ?case by (cases t) (simp_all split: if_splits)
next
  case (Cons c s)
  show ?case
  proof (cases "prefix m (c # s)")
    case True
    with Cons.prems have "k = 0" by simp
    moreover from True have "prefix m ((c # s) @ t)" by (rule prefix_prefix)
    ultimately show ?thesis by simp
  next
    case False
    with Cons.prems obtain j where j: "str_find m s = Some j" "k = Suc j" by auto
    from str_find_bound [OF j(1)] have "length m \<le> length (c # s)" by simp
    with False have "\<not> prefix m ((c # s) @ t)"
      by (metis prefix_length_prefix append_prefixD prefix_order.order_refl prefixI prefix_append)
    with Cons.IH [OF j(1)] j(2) show ?thesis by simp
  qed
qed

lemma cut_at_marker_append:
  "str_find end_marker s = Some k \<Longrightarrow> cut_at_marker (s @ t) = take k s"
  using str_find_bound [of end_marker s k]
  by (simp add: cut_at_marker_def str_find_append)

lemma binary_to_bytes_append8:
  assumes "length c = 8"
  shows "binary_to_bytes (c @ s) = of_nat (int2 c) # binary_to_bytes s"
proof -
  have n: "length (c @ s) div 8 = Suc (length s div 8)"
    using assms by simp
  have u: "[0..<Suc (length s div 8)] = 0 # map Suc [0..<length s div 8]"
    by (simp add: upt_conv_Cons map_Suc_upt del: upt_Suc)
  show ?thesis
    unfolding binary_to_bytes_eq n u using assms by (simp add: o_def)
qed

lemma binary_to_bytes_Nil: "binary_to_bytes [] = []"
  by (simp add: binary_to_bytes_eq)

lemma binary_to_bytes_bytes_to_binary: "binary_to_bytes (bytes_to_binary data) = data"
proof (induction data)
  case Nil
  then show ?case by (simp add: bytes_to_binary_def binary_to_bytes_Nil)
next
  case (Cons b data)
  have l: "length (format_bin 8 (unat b)) = 8"
    using length_bytes_to_binary [of "[b]"] by (simp add: bytes_to_binary_def)
  show ?case
    by (simp add: bytes_to_binary_Cons binary_to_bytes_append8 [OF l] int2_format_bin Cons)
qed

lemma lsb_extract_embed:
  assumes "bits \<in> {1, 2, 3, 4}"
    and "8 * length framed + 16 \<le> np_size img_array * bits"
    and "str_find end_marker (bytes_to_binary framed @ end_marker) = Some k"
  shows "\<exists>stego. lsb_embed_secure img_array framed bits = Inr stego \<and>
           lsb_extract_secure stego bits =
             binary_to_bytes (take k (bytes_to_binary framed @ end_marker))"
proof -
  let ?bd = "bytes_to_binary framed @ end_marker"
  let ?out = "seq_embed ?bd bits 0 (flat img_array)"
  from assms(1) have pos: "0 < bits" and le8: "bits \<le> 8" by auto
  have len: "length ?bd = 8 * length framed + 16"
    by (simp add: length_bytes_to_binary length_end_marker)
  have loop: "embed_loop ?bd bits [0..<length (flat img_array)] 0 (flat img_array) = Inr ?out"
    using embed_loop_upt [OF pos, of 0 "flat img_array" ?bd 0] by simp
  have res: "lsb_embed_secure img_array framed bits = Inr (img_array\<lparr>flat := ?out\<rparr>)"
    using assms(2) len loop
    by (simp add: lsb_embed_secure_def Let_def then_e_def np_size_def)
  have "length ?bd - 0 \<le> length (flat img_array) * bits"
    using assms(2) len by (simp add: np_size_def)
  then obtain rest where r: "concat (map (sample_lsb bits) ?out) = drop 0 ?bd @ rest"
    using seq_embed_bitstream [OF pos le8] by blast
  have "lsb_extract_secure (img_array\<lparr>flat := ?out\<rparr>) bits = binary_to_bytes (cut_at_marker (?bd @ rest))"
    using r by (simp add: lsb_extract_secure_def Let_def extract_scan_eq)
  also have "cut_at_marker (?bd @ rest) = take k ?bd"
    using assms(3) by (rule cut_at_marker_append)
  finally show ?thesis using res by blast
qed

lemma struct_pack_Inr: "struct_pack k v = Inr bs \<Longrightarrow> 0 \<le> v \<and> v < 256 ^ k"
  by (simp add: struct_pack_def split: if_splits)

lemma pack_header_ranges:
  assumes "pack_header h = Inr header"
  shows "0 \<le> timestamp h \<and> timestamp h < 2 ^ 64 \<and>
         0 \<le> original_size h \<and> original_size h < 2 ^ 32 \<and>
         0 \<le> processed_size h \<and> processed_size h < 2 ^ 32 \<and>
         0 \<le> encrypted h \<and> encrypted h < 256 \<and>
         0 \<le> compressed h \<and> compressed h < 256"
proof -
  from assms obtain ts os ps en co where
    "struct_pack 8 (timestamp h) = Inr ts" "struct_pack 4 (original_size h) = Inr os"
    "struct_pack 4 (processed_size h) = Inr ps" "struct_pack 1 (encrypted h) = Inr en"
    "struct_pack 1 (compressed h) = Inr co"
    unfolding pack_header_def then_e_def by (auto split: sum.splits)
  then show ?thesis
    using struct_pack_Inr [of 8 "timestamp h"] struct_pack_Inr [of 4 "original_size h"]
      struct_pack_Inr [of 4 "processed_size h"] struct_pack_Inr [of 1 "encrypted h"]
      struct_pack_Inr [of 1 "compressed h"]
    by simp
qed

lemma pack_header_then_parse:
  assumes "pack_header h = Inr header" "length (magic h) = 9" "length (checksum h) = 16"
  shows "length header = 43 \<and> py_slice (header @ payload) 0 9 = magic h \<and>
         parse_header (header @ payload) = Inr h"
proof -
  from pack_header_ranges [OF assms(1)] assms(2,3)
  have "\<exists>header. pack_header h = Inr header \<and> length header = 43 \<and>
           py_slice (header @ payload) 0 9 = magic h \<and>
           parse_header (header @ payload) = Inr h"
    by (intro header_pack_parse) simp_all
  with assms(1) show ?thesis by auto
qed

lemma decrypt_encrypt:
  assumes "length (get_random_bytes R 12) = 12"
    and "gcm_encrypt_and_digest L (derive_key L password 32) (get_random_bytes R 12) z = (ciphertext, tag)"
    and "length tag = 16"
    and "gcm_decrypt_and_verify L (derive_key L password 32) (get_random_bytes R 12) ciphertext tag = Inr z"
  shows "decrypt L (encrypt L R z password) password = Inr z"
  using assms by (simp add: decrypt_def encrypt_def Let_def py_slice_def)

lemma process_framed:
  assumes prep: "prepare_data_with_security L R data password = Inr framed"
    and zlib: "zlib_decompress L (zlib_compress L data) = Inr data"
    and sha: "16 \<le> length (sha256 L data)"
    and aes: "password \<noteq> [] \<longrightarrow>
        length (get_random_bytes R 12) = 12 \<and>
        (case gcm_encrypt_and_digest L (derive_key L password 32) (get_random_bytes R 12)
                (zlib_compress L data) of
           (ciphertext, tag) \<Rightarrow>
             length tag = 16 \<and>
             gcm_decrypt_and_verify L (derive_key L password 32) (get_random_bytes R 12)
               ciphertext tag = Inr (zlib_compress L data))"
  shows "\<exists>info. process_extracted_data L framed password = Inr (data, info)"
proof -
  let ?z = "zlib_compress L data"
  let ?payload = "if password \<noteq> [] then encrypt L R ?z password else ?z"
  let ?h = "\<lparr>magic = stegano_magic, timestamp = time_now R,
        original_size = int (length data), processed_size = int (length ?payload),
        encrypted = (if password \<noteq> [] then 1 else 0), compressed = 1,
        checksum = take 16 (sha256 L data)\<rparr>"
  have avail: "password \<noteq> [] \<longrightarrow> crypto_manager L = Inr ()"
  proof
    assume "password \<noteq> []"
    with prep show "crypto_manager L = Inr ()"
      unfolding prepare_data_with_security_def then_e_def Let_def
      by (cases "crypto_manager L") simp_all
  qed
  from prep avail obtain header where
    hd: "pack_header ?h = Inr header" and fr: "framed = header @ ?payload"
    unfolding prepare_data_with_security_def create_secure_header_def then_e_def Let_def
    by (cases "password = []") (auto split: sum.splits)
  have m9: "length (magic ?h) = 9"
    by (simp add: stegano_magic_def encode_def)
  have c16: "length (checksum ?h) = 16"
    using sha by simp
  from pack_header_then_parse [OF hd m9 c16, of ?payload]
  have l43: "length header = 43"
    and mg: "py_slice framed 0 9 = stegano_magic"
    and ph: "parse_header framed = Inr ?h"
    unfolding fr by simp_all
  have dp: "py_slice framed 43 (43 + nat (processed_size ?h)) = ?payload"
    unfolding fr using l43 by (simp add: py_slice_def)
  have dec: "decrypt L (encrypt L R ?z password) password = Inr ?z" if "password \<noteq> []"
  proof -
    obtain ciphertext tag where
      e: "gcm_encrypt_and_digest L (derive_key L password 32) (get_random_bytes R 12) ?z
            = (ciphertext, tag)"
      by (cases "gcm_encrypt_and_digest L (derive_key L password 32) (get_random_bytes R 12) ?z")
    with aes that show ?thesis
      by (intro decrypt_encrypt [where ciphertext = ciphertext and tag = tag]) simp_all
  qed
  have len: "\<not> length framed < 32"
    unfolding fr using l43 by simp
  have "\<exists>info. process_secure L framed password = Inr (data, info)"
  proof (cases "password = []")
    case True
    then show ?thesis
      unfolding process_secure_def using len mg ph dp zlib
      by (simp add: then_e_def Let_def)
  next
    case False
    with avail have av: "crypto_manager L = Inr ()" by simp
    from False dec have d: "decrypt L (encrypt L R ?z password) password = Inr ?z" by simp
    from False dp have dp': "py_slice framed 43 (43 + nat (int (length (encrypt L R ?z password))))
        = encrypt L R ?z password" by simp
    show ?thesis
      unfolding process_secure_def using len mg ph dp' zlib False av d
      by (simp add: then_e_def Let_def)
  qed
  then show ?thesis
    by (auto simp: process_extracted_data_def)
qed

lemma bytes_to_binary_append:
  "bytes_to_binary (xs @ ys) = bytes_to_binary xs @ bytes_to_binary ys"
  by (simp add: bytes_to_binary_def)

lemma binary_to_bytes_short: "length t < 8 \<Longrightarrow> binary_to_bytes t = []"
  by (simp add: binary_to_bytes_eq)

lemma binary_to_bytes_partial:
  "length t < 8 \<Longrightarrow> binary_to_bytes (bytes_to_binary data @ t) = data"
proof (induction data)
  case Nil
  then show ?case by (simp add: bytes_to_binary_def binary_to_bytes_short)
next
  case (Cons b data)
  have l: "length (format_bin 8 (unat b)) = 8"
    using length_bytes_to_binary [of "[b]"] by (simp add: bytes_to_binary_def)
  from Cons show ?case
    by (simp add: bytes_to_binary_Cons binary_to_bytes_append8 [OF l] int2_format_bin)
qed

lemma prepare_zero:
  "prepare_data_with_security recorded_lib recorded_run zero_payload [] = Inr framed_zero"
  by (simp add: eval_pack recorded_defs zero_payload_neq length_zero_payload framed_zero_def)

lemma marker_in_framed_zero:
  "str_find end_marker (bytes_to_binary framed_zero @ end_marker) = Some 153"
proof -
  have "str_find end_marker (bytes_to_binary
          [83, 84, 69, 71, 65, 78, 79, 48, 49, 0, 0, 0, 0, 101, 83, 241, 0, 0, 0, 127, 255, 0])
        = Some 153"
    by code_simp
  then show ?thesis
    unfolding framed_zero_def bytes_to_binary_append append_assoc by (rule str_find_append)
qed

lemma cut_framed_zero:
  "binary_to_bytes (take 153 (bytes_to_binary framed_zero @ end_marker)) =
     [83, 84, 69, 71, 65, 78, 79, 48, 49, 0, 0, 0, 0, 101, 83, 241, 0, 0, 0]"
proof -
  let ?head = "[83, 84, 69, 71, 65, 78, 79, 48, 49, 0, 0, 0, 0, 101, 83, 241, 0, 0, 0] :: bytes"
  obtain rest where f: "framed_zero = ?head @ 127 # rest"
    by (simp add: framed_zero_def)
  define hb where "hb = bytes_to_binary ?head"
  have l: "length hb = 152"
    by (simp add: hb_def length_bytes_to_binary)
  have "bytes_to_binary (127 # rest) @ end_marker = False # tl (bytes_to_binary (127 # rest) @ end_marker)"
    by (simp add: bytes_to_binary_Cons format_bin_8)
  then obtain more where m: "bytes_to_binary (127 # rest) @ end_marker = False # more"
    by blast
  have "bytes_to_binary framed_zero @ end_marker = hb @ False # more"
    unfolding f bytes_to_binary_append append_assoc m hb_def ..
  then have "take 153 (bytes_to_binary framed_zero @ end_marker) = hb @ [False]"
    using l by simp
  then show ?thesis
    unfolding hb_def using binary_to_bytes_partial [of "[False]" ?head] by simp
qed

text \<open>
  C1, as the code has it. For every non-empty payload \<open>D\<close>, password, bit depth 1 to 4 and the
  sequential technique, on a carrier with room for the framed bytes and the end marker:
  if the end-marker pattern does not occur in the framed bitstream before the marker that
  is appended to it, and the libraries invert each other (zlib, and AES-GCM when a password
  is given), then extracting from the embedded buffer returns exactly \<open>D\<close>.
\<close>

theorem sequential_roundtrip:
  assumes "bits \<in> {1, 2, 3, 4}"
    and "data \<noteq> []"
    and "technique \<noteq> ''LSB_RANDOM''"
    and "prepare_data_with_security L R data password = Inr framed"
    and "8 * length framed + 16 \<le> np_size img_array * bits"
    and "str_find end_marker (bytes_to_binary framed @ end_marker) = Some (8 * length framed)"
    and "zlib_decompress L (zlib_compress L data) = Inr data"
    and "16 \<le> length (sha256 L data)"
    and "password \<noteq> [] \<longrightarrow>
        length (get_random_bytes R 12) = 12 \<and>
        (case gcm_encrypt_and_digest L (derive_key L password 32) (get_random_bytes R 12)
                (zlib_compress L data) of
           (ciphertext, tag) \<Rightarrow>
             length tag = 16 \<and>
             gcm_decrypt_and_verify L (derive_key L password 32) (get_random_bytes R 12)
               ciphertext tag = Inr (zlib_compress L data))"
  shows "roundtrip L R img_array data password bits technique = Inr data"
proof -
  have v: "validate_inputs data bits = Inr ()"
    using assms(1,2) by (auto simp: validate_inputs_def)
  from lsb_extract_embed [OF assms(1,5,6)] obtain stego where
    em: "lsb_embed_secure img_array framed bits = Inr stego"
    and ex: "lsb_extract_secure stego bits =
               binary_to_bytes (take (8 * length framed) (bytes_to_binary framed @ end_marker))"
    by blast
  have "take (8 * length framed) (bytes_to_binary framed @ end_marker) = bytes_to_binary framed"
    by (simp add: length_bytes_to_binary)
  with ex have ex': "lsb_extract_secure stego bits = framed"
    by (simp add: binary_to_bytes_bytes_to_binary)
  have e: "embed_data_secure L R img_array data password bits technique = Inr stego"
    using assms(3) by (simp add: embed_data_secure_def v assms(4) em then_e_def)
  from process_framed [OF assms(4,7,8,9)] obtain info where
    p: "process_extracted_data L framed password = Inr (data, info)" by blast
  have "extract_data_secure L stego password bits technique = Inr (data, info)"
    using assms(3) by (simp add: extract_data_secure_def then_e_def ex' p)
  with e show ?thesis
    by (simp add: roundtrip_def then_e_def)
qed

lemma prepare_framed_k:
  "prepare_data_with_security recorded_lib recorded_run [65] ''k'' = Inr framed_k"
proof -
  have r: "recorded_run = recorded_run\<lparr>time_now := 1700000000 + 0\<rparr>"
    by (simp add: recorded_run_def)
  show ?thesis
    by (subst r, subst prepare_k) (simp add: int_to_bytes_big_8 framed_k_def)
qed

lemma marker_in_framed_k:
  "str_find end_marker (bytes_to_binary framed_k @ end_marker) = Some (8 * length framed_k)"
proof -
  have "str_find end_marker (bytes_to_binary framed_k @ end_marker) = Some 640"
    by code_simp
  moreover have "length framed_k = 80"
    by (simp add: framed_k_def stegano_magic_def encode_def)
  ultimately show ?thesis by simp
qed

theorem sequential_roundtrip_witness:
  "(4 :: nat) \<in> {1, 2, 3, 4} \<and>
   [65 :: byte] \<noteq> [] \<and>
   ''LSB'' \<noteq> ''LSB_RANDOM'' \<and>
   prepare_data_with_security recorded_lib recorded_run [65] ''k'' = Inr framed_k \<and>
   8 * length framed_k + 16 \<le> np_size \<lparr>shape = [8, 7, 3], flat = replicate 168 200\<rparr> * 4 \<and>
   str_find end_marker (bytes_to_binary framed_k @ end_marker) = Some (8 * length framed_k) \<and>
   zlib_decompress recorded_lib (zlib_compress recorded_lib [65]) = Inr [65] \<and>
   16 \<le> length (sha256 recorded_lib [65]) \<and>
   ''k'' \<noteq> [] \<and>
   length (get_random_bytes recorded_run 12) = 12 \<and>
   (case gcm_encrypt_and_digest recorded_lib (derive_key recorded_lib ''k'' 32)
           (get_random_bytes recorded_run 12) (zlib_compress recorded_lib [65]) of
      (ciphertext, tag) \<Rightarrow>
        length tag = 16 \<and>
        gcm_decrypt_and_verify recorded_lib (derive_key recorded_lib ''k'' 32)
          (get_random_bytes recorded_run 12) ciphertext tag =
          Inr (zlib_compress recorded_lib [65])) \<and>
   roundtrip recorded_lib recorded_run \<lparr>shape = [8, 7, 3], flat = replicate 168 200\<rparr>
     [65] ''k'' 4 ''LSB'' = Inr [65]"
proof -
  let ?img = "\<lparr>shape = [8, 7, 3], flat = replicate 168 (200 :: byte)\<rparr>"
  have h1: "(4 :: nat) \<in> {1, 2, 3, 4}" by simp
  have h2: "[65 :: byte] \<noteq> []" by simp
  have h3: "''LSB'' \<noteq> ''LSB_RANDOM''" by simp
  note h4 = prepare_framed_k
  have h5: "8 * length framed_k + 16 \<le> np_size ?img * 4"
    by (simp add: framed_k_def stegano_magic_def encode_def np_size_def)
  note h6 = marker_in_framed_k
  have h7: "zlib_decompress recorded_lib (zlib_compress recorded_lib [65]) = Inr [65]"
    by (simp add: recorded_defs zero_payload_neq)
  have h8: "16 \<le> length (sha256 recorded_lib [65])"
    by (simp add: recorded_defs zero_payload_neq)
  have h9a: "length (get_random_bytes recorded_run 12) = 12"
    by (simp add: recorded_run_def)
  have h9b: "(case gcm_encrypt_and_digest recorded_lib (derive_key recorded_lib ''k'' 32)
           (get_random_bytes recorded_run 12) (zlib_compress recorded_lib [65]) of
      (ciphertext, tag) \<Rightarrow>
        length tag = 16 \<and>
        gcm_decrypt_and_verify recorded_lib (derive_key recorded_lib ''k'' 32)
          (get_random_bytes recorded_run 12) ciphertext tag =
          Inr (zlib_compress recorded_lib [65]))"
    by (simp add: recorded_lib_def)
  from h9a h9b have h9: "''k'' \<noteq> [] \<longrightarrow>
      length (get_random_bytes recorded_run 12) = 12 \<and>
      (case gcm_encrypt_and_digest recorded_lib (derive_key recorded_lib ''k'' 32)
           (get_random_bytes recorded_run 12) (zlib_compress recorded_lib [65]) of
      (ciphertext, tag) \<Rightarrow>
        length tag = 16 \<and>
        gcm_decrypt_and_verify recorded_lib (derive_key recorded_lib ''k'' 32)
          (get_random_bytes recorded_run 12) ciphertext tag =
          Inr (zlib_compress recorded_lib [65]))"
    by blast
  have "roundtrip recorded_lib recorded_run ?img [65] ''k'' 4 ''LSB'' = Inr [65]"
    by (rule sequential_roundtrip [OF h1 h2 h3 h4 h5 h6 h7 h8 h9])
  with h1 h2 h3 h4 h5 h6 h7 h8 h9a h9b show ?thesis
    by (intro conjI) simp_all
qed

text \<open>The sequential technique, with the end-marker pattern inside the header.\<close>

lemma roundtrip_marker_collision:
  "8 * length framed_zero + 16 \<le> np_size \<lparr>shape = [10, 10, 3], flat = replicate 300 200\<rparr> * 4 \<and>
   roundtrip recorded_lib recorded_run \<lparr>shape = [10, 10, 3], flat = replicate 300 200\<rparr>
       zero_payload [] 4 ''LSB'' =
     Inr [83, 84, 69, 71, 65, 78, 79, 48, 49, 0, 0, 0, 0, 101, 83, 241, 0, 0, 0] \<and>
   roundtrip recorded_lib recorded_run \<lparr>shape = [10, 10, 3], flat = replicate 300 200\<rparr>
       zero_payload [] 4 ''LSB'' \<noteq> Inr zero_payload"
proof -
  let ?img = "\<lparr>shape = [10, 10, 3], flat = replicate 300 (200 :: byte)\<rparr>"
  let ?head = "[83, 84, 69, 71, 65, 78, 79, 48, 49, 0, 0, 0, 0, 101, 83, 241, 0, 0, 0] :: bytes"
  have b: "(4 :: nat) \<in> {1, 2, 3, 4}" by simp
  have cap: "8 * length framed_zero + 16 \<le> np_size ?img * 4"
    by (simp add: framed_zero_def np_size_def)
  have v: "validate_inputs zero_payload 4 = Inr ()"
    by (simp add: validate_inputs_def zero_payload_def)
  from lsb_extract_embed [OF b cap marker_in_framed_zero] obtain stego where
    em: "lsb_embed_secure ?img framed_zero 4 = Inr stego"
    and ex: "lsb_extract_secure stego 4 = ?head"
    unfolding cut_framed_zero by blast
  have e: "embed_data_secure recorded_lib recorded_run ?img zero_payload [] 4 ''LSB'' = Inr stego"
    by (simp add: embed_data_secure_def v prepare_zero em then_e_def)
  have p: "process_extracted_data recorded_lib ?head [] = Inr (?head, legacy_info)"
    by (simp add: process_extracted_data_def process_secure_def)
  have x: "extract_data_secure recorded_lib stego [] 4 ''LSB'' = Inr (?head, legacy_info)"
    by (simp add: extract_data_secure_def then_e_def ex p)
  have r: "roundtrip recorded_lib recorded_run ?img zero_payload [] 4 ''LSB'' = Inr ?head"
    by (simp add: roundtrip_def then_e_def e x)
  have "?head \<noteq> zero_payload"
    by (simp add: zero_payload_neq)
  with cap r show ?thesis by simp
qed

text \<open>The permuted technique: the embedder writes chunk \<open>k\<close> to sample \<open>indices[k]\<close>, the
  extractor reads the samples in index order.\<close>

lemma replicate_108:
  "replicate 108 x =
     [x, x, x, x, x, x, x, x, x, x, x, x, x, x, x, x, x, x, x, x, x, x, x, x, x, x, x,
      x, x, x, x, x, x, x, x, x, x, x, x, x, x, x, x, x, x, x, x, x, x, x, x, x, x, x,
      x, x, x, x, x, x, x, x, x, x, x, x, x, x, x, x, x, x, x, x, x, x, x, x, x, x, x,
      x, x, x, x, x, x, x, x, x, x, x, x, x, x, x, x, x, x, x, x, x, x, x, x, x, x, x]"
  by (simp add: eval_nat_numeral)

lemma permutation_108:
  "np_permutation recorded_lib (password_seed recorded_lib []) 108 =
     [66, 37, 70, 19, 42, 63, 31, 86, 17, 25, 26, 94, 69, 56, 91, 90, 12, 103, 102, 48,
      49, 47, 64, 24, 89, 34, 100, 99, 54, 35, 107, 4, 32, 21, 55, 80, 76, 98, 11, 81,
      14, 67, 61, 85, 43, 104, 79, 27, 59, 18, 57, 41, 106, 52, 20, 45, 44, 22, 53, 62,
      5, 82, 68, 36, 95, 83, 50, 3, 77, 71, 97, 13, 23, 74, 10, 28, 40, 9, 29, 92, 84,
      7, 73, 72, 75, 30, 16, 105, 60, 38, 33, 65, 8, 6, 39, 87, 2, 101, 93, 15, 46, 0,
      58, 1, 88, 96, 51, 78]"
  unfolding password_seed_empty by (simp add: recorded_defs)

lemma random_embed_A_108:
  "lsb_random_embed recorded_lib \<lparr>shape = [6, 6, 3], flat = replicate 108 200\<rparr> framed_A 4 [] =
     Inr \<lparr>shape = [6, 6, 3], flat = stego_108\<rparr>"
proof -
  have bd: "bytes_to_binary framed_A @ end_marker =
       [False, True, False, True, False, False, True, True, False, True, False, True,
        False, True, False, False, False, True, False, False, False, True, False, True,
        False, True, False, False, False, True, True, True, False, True, False, False,
        False, False, False, True, False, True, False, False, True, True, True, False,
        False, True, False, False, True, True, True, True, False, False, True, True,
        False, False, False, False, False, False, True, True, False, False, False, True,
        False, False, False, False, False, False, False, False, False, False, False,
        False, False, False, False, False, False, False, False, False, False, False,
        False, False, False, False, False, False, False, False, False, False, False, True,
        True, False, False, True, False, True, False, True, False, True, False, False,
        True, True, True, True, True, True, False, False, False, True, False, False,
        False, False, False, False, False, False, False, False, False, False, False,
        False, False, False, False, False, False, False, False, False, False, False,
        False, False, False, False, False, False, False, False, False, False, False,
        False, False, False, False, True, False, False, False, False, False, False, False,
        False, False, False, False, False, False, False, False, False, False, False,
        False, False, False, False, False, False, False, False, False, False, True, False,
        False, True, False, False, False, False, False, False, False, False, False, False,
        False, False, False, False, False, True, False, True, False, True, False, True,
        False, True, True, False, False, True, True, False, True, False, True, True, True,
        False, True, False, True, False, True, True, False, True, False, False, False,
        False, True, False, False, False, False, False, True, False, False, True, True,
        False, False, True, False, False, True, True, False, True, False, True, False,
        True, False, True, True, True, True, False, False, True, False, True, False, True,
        True, True, False, True, False, False, True, True, True, False, False, True,
        False, False, False, False, True, False, False, True, False, True, True, True,
        False, False, False, True, True, False, False, False, True, True, False, False,
        True, True, False, True, True, True, False, True, False, False, False, False,
        False, True, False, True, True, False, True, False, True, False, True, True,
        False, True, True, True, True, False, False, False, True, True, False, True, True,
        False, True, False, False, True, True, True, False, False, True, True, False,
        False, False, False, False, True, False, False, False, False, False, False, False,
        False, False, False, False, False, False, False, False, False, False, False,
        False, True, False, False, False, False, True, False, False, False, False, False,
        False, False, False, False, False, True, False, False, False, False, True, False,
        True, True, True, True, True, True, True, True, True, True, True, True, True,
        True, True, False]"
    by code_simp
  note perm = permutation_108
  show ?thesis
    unfolding lsb_random_embed_def Let_def
    apply (simp only: ndarray.simps length_replicate perm bd)
    apply (simp add: replicate_108 then_e_def embed_loop_step embed_sample_def py_slice_def
        ljust_def int2_def stego_108_def del: embed_loop.simps(2))
    done
qed

lemma random_extract_108:
  "lsb_random_extract recorded_lib \<lparr>shape = [6, 6, 3], flat = stego_108\<rparr> 4 [] = Inr extracted_108"
proof -
  let ?img = "\<lparr>shape = [6, 6, 3], flat = stego_108\<rparr>"
  have n: "np_size ?img = 108"
    by (simp add: np_size_def stego_108_def)
  have "is_permutation
       [66, 37, 70, 19, 42, 63, 31, 86, 17, 25, 26, 94, 69, 56, 91, 90, 12, 103, 102,
        48, 49, 47, 64, 24, 89, 34, 100, 99, 54, 35, 107, 4, 32, 21, 55, 80, 76, 98, 11,
        81, 14, 67, 61, 85, 43, 104, 79, 27, 59, 18, 57, 41, 106, 52, 20, 45, 44, 22,
        53, 62, 5, 82, 68, 36, 95, 83, 50, 3, 77, 71, 97, 13, 23, 74, 10, 28, 40, 9, 29,
        92, 84, 7, 73, 72, 75, 30, 16, 105, 60, 38, 33, 65, 8, 6, 39, 87, 2, 101, 93,
        15, 46, 0, 58, 1, 88, 96, 51, 78] 108"
    by code_simp
  then have "is_permutation (np_permutation recorded_lib (password_seed recorded_lib []) (np_size ?img))
      (np_size ?img)"
    unfolding n permutation_108 .
  then have "lsb_random_extract recorded_lib ?img 4 [] = Inr (lsb_extract_secure ?img 4)"
    by (rule lsb_random_extract_eq)
  moreover have "lsb_extract_secure ?img 4 =
       [2, 5, 29, 77, 1, 0, 61, 2, 116, 148, 80, 163, 1, 64, 152, 180, 7, 3, 35, 160,
        112, 64, 149, 0, 0, 223, 30, 80, 240, 64, 208, 165, 3, 81, 132, 89, 80, 154, 7,
        224, 0, 4, 208, 112, 240, 3, 196, 230, 245, 5, 96, 1, 8, 15]"
    unfolding stego_108_def by code_simp
  ultimately show ?thesis by (simp add: extracted_108_def)
qed

lemma roundtrip_permuted:
  "roundtrip recorded_lib recorded_run \<lparr>shape = [6, 6, 3], flat = replicate 108 200\<rparr>
     [65] [] 4 ''LSB_RANDOM'' = Inr extracted_108"
proof -
  have v: "validate_inputs [65] 4 = Inr ()"
    by (simp add: validate_inputs_def)
  have e: "embed_data_secure recorded_lib recorded_run
      \<lparr>shape = [6, 6, 3], flat = replicate 108 200\<rparr> [65] [] 4 ''LSB_RANDOM'' =
      Inr \<lparr>shape = [6, 6, 3], flat = stego_108\<rparr>"
    unfolding embed_data_secure_def v prepare_A then_e_def using random_embed_A_108 by simp
  have "32 \<le> length extracted_108" "py_slice extracted_108 0 9 \<noteq> stegano_magic"
    by (simp_all add: extracted_108_def py_slice_def stegano_magic_def encode_def)
  then have p: "process_extracted_data recorded_lib extracted_108 [] = Inr (extracted_108, legacy_info)"
    by (simp add: process_extracted_data_def process_secure_def)
  have x: "extract_data_secure recorded_lib \<lparr>shape = [6, 6, 3], flat = stego_108\<rparr> [] 4 ''LSB_RANDOM'' =
      Inr (extracted_108, legacy_info)"
    by (simp add: extract_data_secure_def then_e_def random_extract_108 p)
  show ?thesis
    by (simp add: roundtrip_def then_e_def e x)
qed

text \<open>
  The round trip as the specification states it fails twice. Sequential, 4 bits, no password,
  a payload of 32767 zero bytes on a 10 by 10 RGB carrier with room to spare: the size field
  \<open>00 00 7F FF\<close> followed by the first bit of the next field is the end-marker pattern, the
  extractor cuts the stream there, and the call returns the first 19 header bytes. Permuted,
  4 bits, no password, the payload \<open>b'A'\<close> on a 6 by 6 RGB carrier that holds the bitstream
  exactly: the extractor reads the scattered chunks in index order and returns 54 bytes
  that are not the payload.
\<close>

theorem roundtrip_counterexample:
  "8 * length framed_zero + 16 \<le> np_size \<lparr>shape = [10, 10, 3], flat = replicate 300 200\<rparr> * 4 \<and>
   roundtrip recorded_lib recorded_run \<lparr>shape = [10, 10, 3], flat = replicate 300 200\<rparr>
       zero_payload [] 4 ''LSB'' =
     Inr [83, 84, 69, 71, 65, 78, 79, 48, 49, 0, 0, 0, 0, 101, 83, 241, 0, 0, 0] \<and>
   roundtrip recorded_lib recorded_run \<lparr>shape = [10, 10, 3], flat = replicate 300 200\<rparr>
       zero_payload [] 4 ''LSB'' \<noteq> Inr zero_payload \<and>
   8 * length framed_A + 16 \<le> np_size \<lparr>shape = [6, 6, 3], flat = replicate 108 200\<rparr> * 4 \<and>
   roundtrip recorded_lib recorded_run \<lparr>shape = [6, 6, 3], flat = replicate 108 200\<rparr>
       [65] [] 4 ''LSB_RANDOM'' = Inr extracted_108 \<and>
   roundtrip recorded_lib recorded_run \<lparr>shape = [6, 6, 3], flat = replicate 108 200\<rparr>
       [65] [] 4 ''LSB_RANDOM'' \<noteq> Inr [65]"
proof -
  have c: "8 * length framed_A + 16 \<le> np_size \<lparr>shape = [6, 6, 3], flat = replicate 108 200\<rparr> * 4"
    by (simp add: framed_A_def np_size_def)
  have "extracted_108 \<noteq> [65]"
    by (simp add: extracted_108_def)
  with roundtrip_marker_collision roundtrip_permuted c show ?thesis
    by (simp add: zero_payload_neq)
qed

end
